theory Spec2Isabelle
  imports Complex_Main
begin

section \<open>Numbers, points and the data model\<close>

text \<open>
  The engine is TypeScript; every \<open>number\<close> is modelled as a \<open>real\<close>, that is, a finite
  double computed without rounding.  The only place where a non-finite value can arise from
  finite inputs is the division in \<open>LaneNavigator.advanceAlongLane\<close>; there the result is a
  \<open>jsnum\<close>, which keeps \<open>Infinity\<close>, \<open>-Infinity\<close> and \<open>NaN\<close> apart from the finite values.

  Record fields keep the source's names except where the name is a HOL constant or would
  capture the variables \<open>x\<close> and \<open>y\<close>: a point's coordinates are \<open>xc\<close> and \<open>yc\<close>, a lane's
  \<open>id\<close> is \<open>lane_id\<close>, an entity's \<open>id\<close>, \<open>type\<close>, \<open>x\<close>, \<open>y\<close> are \<open>ent_id\<close>, \<open>etype\<close>, \<open>ex\<close>, \<open>ey\<close>.
\<close>

record LanePoint =
  xc :: real
  yc :: real

record Lane =
  lane_id :: string
  points :: "LanePoint list"

datatype EntityType = forklift | pallet | worker

record EntityState =
  ent_id :: string
  etype :: EntityType
  ex :: real
  ey :: real
  speed :: real
  heading :: real
  targetSpeed :: real
  currentLaneId :: "string option"
  laneProgress :: real
  route :: "string list"
  routeIndex :: nat
  lastEventTime :: real
  zoneId :: "string option"
  targetPosition :: "LanePoint option"

record SimulatorConfig =
  tickMs :: real
  simSpeed :: real
  forkliftSpeedRange :: "real \<times> real"
  palletSpeedRange :: "real \<times> real"
  workerSpeedRange :: "real \<times> real"
  eventProbability :: real
  congestionThreshold :: real
  collisionRadius :: real

text \<open>
  JavaScript truthiness of an optional string: \<open>undefined\<close>, \<open>null\<close> and the empty string
  are falsy.  \<open>a || b\<close> on optional strings is \<open>js_or\<close>.
\<close>

definition truthy :: "string option \<Rightarrow> bool" where
  "truthy s = (case s of None \<Rightarrow> False | Some v \<Rightarrow> v \<noteq> [])"

definition js_or :: "string option \<Rightarrow> string option \<Rightarrow> string option" where
  "js_or a b = (if truthy a then a else b)"

text \<open>\<open>xs[i]\<close> in JavaScript: \<open>undefined\<close> outside the array.\<close>

definition at_index :: "'a list \<Rightarrow> int \<Rightarrow> 'a option" where
  "at_index xs i = (if 0 \<le> i \<and> i < int (length xs) then Some (xs ! nat i) else None)"

text \<open>
  \<open>xs[Math.floor(Math.random() * xs.length)]\<close>, the draw \<open>r\<close> being the value returned by
  \<open>Math.random()\<close>.
\<close>

definition random_pick :: "'a list \<Rightarrow> real \<Rightarrow> 'a option" where
  "random_pick xs r = at_index xs \<lfloor>r * real (length xs)\<rfloor>"

section \<open>The tick scheduler: start and stop\<close>

text \<open>
  \<open>WarehouseSimulator.start\<close> and \<open>stop\<close> touch two fields, \<open>running\<close> and \<open>intervalId\<close>, and the
  host's table of interval timers.  The host is modelled by the list \<open>timers\<close> of the handles
  whose callback fires once per interval, and by the next fresh handle; \<open>setInterval\<close>
  registers a fresh (truthy) handle, \<open>clearInterval\<close> removes one.  Each live timer runs the
  tick callback, and so delivers one position-tick batch, once per interval.
\<close>

record Scheduler =
  running :: bool
  intervalId :: "nat option"
  timers :: "nat list"
  nextHandle :: nat

definition setInterval :: "Scheduler \<Rightarrow> nat \<times> Scheduler" where
  "setInterval s =
     (nextHandle s, s\<lparr>timers := timers s @ [nextHandle s], nextHandle := Suc (nextHandle s)\<rparr>)"

definition clearInterval :: "nat \<Rightarrow> Scheduler \<Rightarrow> Scheduler" where
  "clearInterval h s = s\<lparr>timers := removeAll h (timers s)\<rparr>"

definition start :: "Scheduler \<Rightarrow> Scheduler" where
  "start s =
     (if running s then s
      else (let s1 = s\<lparr>running := True\<rparr>;
                (h, s2) = setInterval s1
            in s2\<lparr>intervalId := Some h\<rparr>))"

definition stop :: "Scheduler \<Rightarrow> Scheduler" where
  "stop s =
     (if \<not> running s then s
      else (let s1 = s\<lparr>running := False\<rparr>
            in case intervalId s1 of
                 Some h \<Rightarrow> (clearInterval h s1)\<lparr>intervalId := None\<rparr>
               | None \<Rightarrow> s1))"

text \<open>A freshly constructed simulator: not running, no timer.\<close>

definition newScheduler :: "nat \<Rightarrow> Scheduler" where
  "newScheduler h0 = \<lparr>running = False, intervalId = None, timers = [], nextHandle = h0\<rparr>"

datatype Call = CallStart | CallStop

fun call :: "Call \<Rightarrow> Scheduler \<Rightarrow> Scheduler" where
  "call CallStart s = start s"
| "call CallStop s = stop s"

definition after_calls :: "nat \<Rightarrow> Call list \<Rightarrow> Scheduler" where
  "after_calls h0 cs = fold call cs (newScheduler h0)"

text \<open>The number of position-tick batches delivered per interval.\<close>

definition batchesPerInterval :: "Scheduler \<Rightarrow> nat" where
  "batchesPerInterval s = length (timers s)"

text \<open>
  The scheduler's invariant: the only live timer is the one recorded in \<open>intervalId\<close>, and it
  is live exactly while \<open>running\<close> holds.
\<close>

definition sched_inv :: "Scheduler \<Rightarrow> bool" where
  "sched_inv s =
     (if running s then (\<exists>h. intervalId s = Some h \<and> timers s = [h] \<and> h < nextHandle s)
      else intervalId s = None \<and> timers s = [])"

section \<open>The lane navigator\<close>

text \<open>
  \<open>LaneNavigator\<close> holds the lane network (a list of lanes) and \<open>laneConnections\<close>, a
  JavaScript \<open>Map\<close> from lane id to the list of connected lane ids.  A \<open>Map\<close> keeps its keys
  in insertion order and \<open>set\<close> on an existing key replaces the value in place, so the map
  is an association list with that \<open>map_set\<close>.
\<close>

type_synonym LaneConnections = "(string \<times> string list) list"

fun map_set :: "('k \<times> 'v) list \<Rightarrow> 'k \<Rightarrow> 'v \<Rightarrow> ('k \<times> 'v) list" where
  "map_set [] k v = [(k, v)]"
| "map_set ((k', v') # m) k v =
     (if k' = k then (k', v) # m else (k', v') # map_set m k v)"

definition distance :: "LanePoint \<Rightarrow> LanePoint \<Rightarrow> real" where
  "distance p1 p2 = sqrt ((xc p1 - xc p2)\<^sup>2 + (yc p1 - yc p2)\<^sup>2)"

text \<open>
  \<open>buildLaneConnections\<close>: the test on the four endpoint distances, the inner loop over
  \<open>otherLane\<close> collecting the ids that pass it, and the outer loop that stores one list per
  lane.  A lane without points has no \<open>laneStart\<close> and is skipped by \<open>continue\<close>, in both
  loops.
\<close>

definition connectionRadius :: real where
  "connectionRadius = 3"

definition endpointsClose :: "Lane \<Rightarrow> Lane \<Rightarrow> bool" where
  "endpointsClose lane otherLane =
     (let laneStart = hd (points lane); laneEnd = last (points lane);
          otherStart = hd (points otherLane); otherEnd = last (points otherLane)
      in distance laneStart otherStart < connectionRadius \<or>
         distance laneStart otherEnd < connectionRadius \<or>
         distance laneEnd otherStart < connectionRadius \<or>
         distance laneEnd otherEnd < connectionRadius)"

definition collectConnections :: "Lane list \<Rightarrow> Lane \<Rightarrow> string list" where
  "collectConnections lanes lane =
     map lane_id
       (filter (\<lambda>otherLane. lane_id lane \<noteq> lane_id otherLane \<and> points otherLane \<noteq> [] \<and>
                  endpointsClose lane otherLane) lanes)"

definition buildLaneConnections :: "Lane list \<Rightarrow> LaneConnections" where
  "buildLaneConnections lanes =
     fold (\<lambda>lane m. if points lane = [] then m
                     else map_set m (lane_id lane) (collectConnections lanes lane))
          lanes []"

text \<open>\<open>this.laneConnections.get(id) || []\<close>.\<close>

definition connectionsAt :: "LaneConnections \<Rightarrow> string \<Rightarrow> string list" where
  "connectionsAt m laneId = (case map_of m laneId of None \<Rightarrow> [] | Some cs \<Rightarrow> cs)"

definition getLane :: "Lane list \<Rightarrow> string \<Rightarrow> Lane option" where
  "getLane lanes laneId = find (\<lambda>l. lane_id l = laneId) lanes"

text \<open>\<open>findReturnLane\<close>: the first entry of the map, in its order, that lists the lane.\<close>

fun findReturnLane :: "LaneConnections \<Rightarrow> string \<Rightarrow> string option" where
  "findReturnLane [] cur = None"
| "findReturnLane ((laneId, connections) # rest) cur =
     (if cur \<in> set connections \<and> laneId \<noteq> cur then Some laneId
      else findReturnLane rest cur)"

text \<open>
  \<open>chooseNextLane\<close>; \<open>r\<close> is the value of its one \<open>Math.random()\<close> call.  The result
  \<open>string | null\<close> is a \<open>string option\<close>.
\<close>

definition chooseNextLane :: "LaneConnections \<Rightarrow> string \<Rightarrow> EntityState \<Rightarrow> real \<Rightarrow> string option" where
  "chooseNextLane m currentLane entity r =
     (let connections = connectionsAt m currentLane in
      if connections = [] then findReturnLane m currentLane
      else
        (let plannedNext = at_index (route entity) (int (routeIndex entity) + 1) in
         if length (route entity) > routeIndex entity + 1 \<and> truthy plannedNext \<and>
            the plannedNext \<in> set connections
         then plannedNext
         else if connections \<noteq> [] then js_or (random_pick connections r) None
         else None))"

text \<open>
  \<open>generateRandomRoute\<close>: \<open>routeWalk\<close> is the loop, with the loop counter \<open>i\<close>, the number of
  iterations still to run, the route built so far and \<open>currentLane\<close>; \<open>rs i\<close> is the value of
  the \<open>Math.random()\<close> call of iteration \<open>i\<close>.  The two \<open>break\<close>s return the route.
\<close>

fun routeWalk ::
  "LaneConnections \<Rightarrow> (nat \<Rightarrow> real) \<Rightarrow> nat \<Rightarrow> nat \<Rightarrow> string list \<Rightarrow> string \<Rightarrow> string list" where
  "routeWalk m rs i 0 rt currentLane = rt"
| "routeWalk m rs i (Suc k) rt currentLane =
     (let connections = connectionsAt m currentLane in
      if connections = [] then rt
      else
        (let validConnections =
               filter (\<lambda>conn. length rt < 2 \<or> conn \<noteq> rt ! (length rt - 2)) connections;
             nextLane = (if validConnections \<noteq> [] then random_pick validConnections (rs i)
                         else random_pick connections (rs i))
         in if \<not> truthy nextLane then rt
            else routeWalk m rs (Suc i) k (rt @ [the nextLane]) (the nextLane)))"

definition generateRandomRoute ::
  "LaneConnections \<Rightarrow> string \<Rightarrow> int \<Rightarrow> (nat \<Rightarrow> real) \<Rightarrow> string list" where
  "generateRandomRoute m startLaneId len rs =
     routeWalk m rs 0 (nat (len - 1)) [startLaneId] startLaneId"

text \<open>
  A route is well linked when every hop follows a connection of the map, and when a hop
  that returns to the lane two positions back does so from a lane whose only connection
  is that lane.
\<close>

definition route_ok :: "LaneConnections \<Rightarrow> string list \<Rightarrow> bool" where
  "route_ok m rt =
     ((\<forall>k. Suc k < length rt \<longrightarrow>
           rt ! Suc k \<in> set (connectionsAt m (rt ! k))) \<and>
      (\<forall>k. k + 2 < length rt \<and> rt ! (k + 2) = rt ! k \<longrightarrow>
           set (connectionsAt m (rt ! (k + 1))) = {rt ! k}))"

subsection \<open>Sample networks\<close>

text \<open>
  Lane \<open>A\<close> runs along the x axis and lane \<open>B\<close> starts one unit from its end; \<open>A2\<close> is a
  second, far-away lane that reuses the id \<open>A\<close>; \<open>laneZ\<close> is a lane whose points coincide.
\<close>

definition laneA :: Lane where
  "laneA = \<lparr>lane_id = ''A'', points = [\<lparr>xc = 0, yc = 0\<rparr>, \<lparr>xc = 10, yc = 0\<rparr>]\<rparr>"

definition laneB :: Lane where
  "laneB = \<lparr>lane_id = ''B'', points = [\<lparr>xc = 10, yc = 1\<rparr>, \<lparr>xc = 10, yc = 9\<rparr>]\<rparr>"

definition laneA2 :: Lane where
  "laneA2 = \<lparr>lane_id = ''A'', points = [\<lparr>xc = 50, yc = 50\<rparr>, \<lparr>xc = 60, yc = 50\<rparr>]\<rparr>"

definition laneZ :: Lane where
  "laneZ = \<lparr>lane_id = ''Z'', points = [\<lparr>xc = 5, yc = 5\<rparr>, \<lparr>xc = 5, yc = 5\<rparr>]\<rparr>"

definition net3 :: LaneConnections where
  "net3 = [(''A'', [''B'']), (''B'', [''A'', ''C'']), (''C'', [])]"

definition net2 :: LaneConnections where
  "net2 = [(''A'', [''B'']), (''B'', [''A''])]"

definition pallet1 :: EntityState where
  "pallet1 = \<lparr>ent_id = ''pallet-1'', etype = pallet, ex = 0, ey = 0, speed = 1, heading = 0,
     targetSpeed = 1, currentLaneId = Some ''A'', laneProgress = 0, route = [''A''],
     routeIndex = 0, lastEventTime = 0, zoneId = Some ''main-aisle'', targetPosition = None\<rparr>"

section \<open>Path validation (dt-dashboard/src/utils/pathValidation.ts)\<close>


datatype SegmentType = main_aisle | rack_connector | loading_zone












section \<open>Lane motion\<close>

subsection \<open>Non-finite results of a division\<close>

text \<open>
  Dividing a finite number by \<open>+0\<close> gives \<open>Infinity\<close>, \<open>-Infinity\<close> or \<open>NaN\<close>.  The divisor
  in \<open>advanceAlongLane\<close> is a sum of square roots starting from \<open>0\<close>, so a zero divisor is
  \<open>+0\<close>.  The operations below are the ones the source applies to the quotient:
  \<open>entity.laneProgress + q\<close>, \<open>Math.min(1.0, v)\<close> and \<open>v >= 1.0\<close>.
\<close>

datatype jsnum = Fin real | PosInf | NegInf | NaN

definition js_div :: "real \<Rightarrow> real \<Rightarrow> jsnum" where
  "js_div a b =
     (if b \<noteq> 0 then Fin (a / b)
      else if 0 < a then PosInf else if a < 0 then NegInf else NaN)"

definition js_add :: "real \<Rightarrow> jsnum \<Rightarrow> jsnum" where
  "js_add a v = (case v of Fin b \<Rightarrow> Fin (a + b) | PosInf \<Rightarrow> PosInf | NegInf \<Rightarrow> NegInf | NaN \<Rightarrow> NaN)"

definition js_min1 :: "jsnum \<Rightarrow> jsnum" where
  "js_min1 v = (case v of Fin b \<Rightarrow> Fin (min 1 b) | PosInf \<Rightarrow> Fin 1 | NegInf \<Rightarrow> NegInf | NaN \<Rightarrow> NaN)"

definition js_ge1 :: "jsnum \<Rightarrow> bool" where
  "js_ge1 v = (case v of Fin b \<Rightarrow> 1 \<le> b | PosInf \<Rightarrow> True | NegInf \<Rightarrow> False | NaN \<Rightarrow> False)"

subsection \<open>The two lane lengths\<close>

text \<open>
  Both classes have a private \<open>calculateLaneLength\<close> that sums the distances of consecutive
  points.  \<open>LaneNavigator\<close>'s returns the sum; \<open>WarehouseSimulator\<close>'s returns
  \<open>Math.max(length, 1)\<close>.
\<close>

fun polylineLength :: "LanePoint list \<Rightarrow> real" where
  "polylineLength (p1 # p2 # rest) = distance p1 p2 + polylineLength (p2 # rest)"
| "polylineLength [p1] = 0"
| "polylineLength [] = 0"

definition LaneNavigator_calculateLaneLength :: "Lane \<Rightarrow> real" where
  "LaneNavigator_calculateLaneLength lane = polylineLength (points lane)"

definition WarehouseSimulator_calculateLaneLength :: "Lane \<Rightarrow> real" where
  "WarehouseSimulator_calculateLaneLength lane = max (polylineLength (points lane)) 1"

subsection \<open>Position and heading at a progress\<close>

datatype error = LaneNotFound "string option" | InvalidLane string

text \<open>
  \<open>getPositionAtProgress\<close> throws on a lane without points.  For \<open>NaN\<close> every comparison is
  false and \<open>lane.points[NaN]\<close> is \<open>undefined\<close>, which returns \<open>lastPoint\<close>.
\<close>

definition getPositionAtProgress :: "Lane \<Rightarrow> jsnum \<Rightarrow> error + LanePoint" where
  "getPositionAtProgress lane progress =
     (if points lane = [] then Inl (InvalidLane (lane_id lane))
      else
        (let firstPoint = hd (points lane); lastPoint = last (points lane) in
         case progress of
           NegInf \<Rightarrow> Inr firstPoint
         | PosInf \<Rightarrow> Inr lastPoint
         | NaN \<Rightarrow> Inr lastPoint
         | Fin p \<Rightarrow>
             if p \<le> 0 then Inr firstPoint
             else if 1 \<le> p then Inr lastPoint
             else
               (let n1 = int (length (points lane)) - 1;
                    segmentIndex = \<lfloor>p * real_of_int n1\<rfloor>;
                    segmentProgress = p * real_of_int n1 - real_of_int segmentIndex
                in if n1 \<le> segmentIndex then Inr lastPoint
                   else
                     (case (at_index (points lane) segmentIndex,
                            at_index (points lane) (segmentIndex + 1)) of
                        (Some s, Some e) \<Rightarrow>
                          Inr \<lparr>xc = xc s + segmentProgress * (xc e - xc s),
                               yc = yc s + segmentProgress * (yc e - yc s)\<rparr>
                      | _ \<Rightarrow> Inr lastPoint))))"

definition atan2 :: "real \<Rightarrow> real \<Rightarrow> real" where
  "atan2 b a =
     (if 0 < a then arctan (b / a)
      else if a < 0 \<and> 0 \<le> b then arctan (b / a) + pi
      else if a < 0 then arctan (b / a) - pi
      else if 0 < b then pi / 2
      else if b < 0 then - (pi / 2)
      else 0)"

definition headingOfSegment :: "LanePoint list \<Rightarrow> int \<Rightarrow> real" where
  "headingOfSegment pts clampedIndex =
     (case (at_index pts clampedIndex, at_index pts (clampedIndex + 1)) of
        (Some s, Some e) \<Rightarrow> atan2 (yc e - yc s) (xc e - xc s)
      | _ \<Rightarrow> 0)"

definition getHeadingAtProgress :: "Lane \<Rightarrow> jsnum \<Rightarrow> real" where
  "getHeadingAtProgress lane progress =
     (if length (points lane) < 2 then 0
      else
        (let n = int (length (points lane)) in
         case progress of
           Fin p \<Rightarrow> headingOfSegment (points lane) (min \<lfloor>p * real_of_int (n - 1)\<rfloor> (n - 2))
         | PosInf \<Rightarrow> headingOfSegment (points lane) (n - 2)
         | NegInf \<Rightarrow> 0
         | NaN \<Rightarrow> 0))"

subsection \<open>Advancing along a lane\<close>

record Advancement =
  adv_position :: LanePoint
  adv_heading :: real
  reachedEnd :: bool

text \<open>The quotient \<open>distanceToTravel / laneLength\<close> of \<open>advanceAlongLane\<close>.\<close>

definition progressIncrement :: "Lane \<Rightarrow> EntityState \<Rightarrow> real \<Rightarrow> jsnum" where
  "progressIncrement lane entity deltaTime =
     (let distanceToTravel = speed entity * deltaTime;
          laneLength = LaneNavigator_calculateLaneLength lane
      in js_div distanceToTravel laneLength)"

definition advanceAlongLane :: "Lane list \<Rightarrow> EntityState \<Rightarrow> real \<Rightarrow> error + Advancement" where
  "advanceAlongLane lanes entity deltaTime =
     (case find (\<lambda>l. Some (lane_id l) = currentLaneId entity) lanes of
        None \<Rightarrow> Inl (LaneNotFound (currentLaneId entity))
      | Some lane \<Rightarrow>
          (let newProgress =
                 js_min1 (js_add (laneProgress entity) (progressIncrement lane entity deltaTime))
           in case getPositionAtProgress lane newProgress of
                Inl err \<Rightarrow> Inl err
              | Inr pos \<Rightarrow>
                  Inr \<lparr>adv_position = pos,
                       adv_heading = getHeadingAtProgress lane newProgress,
                       reachedEnd = js_ge1 newProgress\<rparr>))"

subsection \<open>The simulator's lane-based update\<close>

text \<open>
  Every \<open>Math.random()\<close> call of one entity's update is an explicit draw: the call in
  \<open>chooseNextLane\<close>, the calls of \<open>generateRandomRoute\<close> (one per iteration), the test
  \<open>Math.random() < 0.3\<close> and the \<open>randomSpeed\<close> of \<open>transitionToNextLane\<close>, the speed jitter,
  and the calls of \<open>resetEntityToValidLane\<close>.
\<close>

record Draws =
  chooseDraw :: real
  routeDraws :: "nat \<Rightarrow> real"
  retargetDraw :: real
  speedDraw :: real
  jitterDraw :: real
  resetGridDraw :: real
  resetLaneDraw :: real
  resetRouteDraws :: "nat \<Rightarrow> real"

definition lerp :: "real \<Rightarrow> real \<Rightarrow> real \<Rightarrow> real" where
  "lerp a b t = a + (b - a) * t"

definition randomSpeed :: "real \<times> real \<Rightarrow> real \<Rightarrow> real" where
  "randomSpeed rng r = fst rng + r * (snd rng - fst rng)"

definition transitionToNextLane ::
  "Lane list \<Rightarrow> LaneConnections \<Rightarrow> SimulatorConfig \<Rightarrow> Draws \<Rightarrow> EntityState \<Rightarrow> EntityState" where
  "transitionToNextLane lanes m cfg rnd entity =
     (if \<not> truthy (currentLaneId entity) then entity
      else
        (let cur = the (currentLaneId entity);
             planned = Suc (routeIndex entity) < length (route entity);
             e1 = (if planned then entity\<lparr>routeIndex := Suc (routeIndex entity)\<rparr> else entity);
             next1 = (if planned then js_or (at_index (route e1) (int (routeIndex e1))) None
                      else None);
             next2 = (if \<not> truthy next1 \<or> getLane lanes (the next1) = None
                      then chooseNextLane m cur e1 (chooseDraw rnd) else next1);
             fresh = generateRandomRoute m cur 5 (routeDraws rnd);
             e2 = (if \<not> truthy next2 then e1\<lparr>route := fresh, routeIndex := 0\<rparr> else e1);
             next3 = (if \<not> truthy next2 then js_or (at_index fresh 1) (Some cur) else next2);
             e3 = e2\<lparr>currentLaneId := next3, laneProgress := 0\<rparr>
         in if retargetDraw rnd < 3 / 10
            then e3\<lparr>targetSpeed :=
                      randomSpeed (if etype e3 = forklift then forkliftSpeedRange cfg
                                   else if etype e3 = worker then workerSpeedRange cfg
                                   else palletSpeedRange cfg) (speedDraw rnd)\<rparr>
            else e3))"

text \<open>
  An update either returns or throws; a throw leaves the entity as mutated so far.  In
  \<open>updateLaneBasedMovement\<close> the only statements that can throw are the two \<open>throw\<close>s reached
  through \<open>advanceAlongLane\<close>, its first call, before any field is written.
\<close>

datatype 'a outcome = Returned 'a | Threw error 'a

definition updateLaneBasedMovement ::
  "Lane list \<Rightarrow> LaneConnections \<Rightarrow> SimulatorConfig \<Rightarrow> Draws \<Rightarrow> EntityState \<Rightarrow> real
     \<Rightarrow> EntityState outcome" where
  "updateLaneBasedMovement lanes m cfg rnd entity deltaTime =
     (if \<not> truthy (currentLaneId entity) then Returned entity
      else
        (case advanceAlongLane lanes entity deltaTime of
           Inl err \<Rightarrow> Threw err entity
         | Inr advancement \<Rightarrow>
             (let e1 = entity\<lparr>ex := xc (adv_position advancement),
                              ey := yc (adv_position advancement),
                              heading := adv_heading advancement\<rparr>;
                  distanceToTravel = speed e1 * deltaTime;
                  e2 = (case getLane lanes (the (currentLaneId e1)) of
                          Some currentLane \<Rightarrow>
                            e1\<lparr>laneProgress := laneProgress e1 +
                                 distanceToTravel / WarehouseSimulator_calculateLaneLength currentLane\<rparr>
                        | None \<Rightarrow> e1);
                  e3 = (if reachedEnd advancement \<or> 1 \<le> laneProgress e2
                        then transitionToNextLane lanes m cfg rnd e2 else e2)
              in Returned (e3\<lparr>speed := lerp (speed e3)
                                 (targetSpeed e3 + (jitterDraw rnd - 1 / 2) * (2 / 10)) (1 / 10)\<rparr>))))"

subsection \<open>Recovery from a failed update\<close>










section \<open>Proximity and congestion events\<close>

text \<open>
  An event without its \<open>id\<close> (a fresh UUID) and its timestamp \<open>t\<close>.  The payload of a
  near-collision is the rounded distance and the closing speed, that of a congestion the
  occupancy and the threshold.
\<close>

datatype EventType = blocked | dwellExceeded | zoneBreach | congestion | nearCollision | reroute

datatype Payload = NearCollisionPayload real real | CongestionPayload nat real

record DTEvent =
  ev_type :: EventType
  assetIds :: "string list"
  ev_zoneId :: string
  payload :: Payload

text \<open>The test of the near-collision loop on two entities.\<close>

definition nearCollisionTest :: "SimulatorConfig \<Rightarrow> EntityState \<Rightarrow> EntityState \<Rightarrow> bool" where
  "nearCollisionTest cfg entity1 entity2 =
     (sqrt ((ex entity1 - ex entity2)\<^sup>2 + (ey entity1 - ey entity2)\<^sup>2) < collisionRadius cfg \<and>
      (speed entity1 > 1 / 10 \<or> speed entity2 > 1 / 10))"

definition nearCollisionEvent :: "EntityState \<Rightarrow> EntityState \<Rightarrow> DTEvent" where
  "nearCollisionEvent entity1 entity2 =
     (let dist = sqrt ((ex entity1 - ex entity2)\<^sup>2 + (ey entity1 - ey entity2)\<^sup>2) in
      \<lparr>ev_type = nearCollision,
       assetIds = [ent_id entity1, ent_id entity2],
       ev_zoneId = the (js_or (zoneId entity1) (js_or (zoneId entity2) (Some ''unknown''))),
       payload = NearCollisionPayload (real_of_int (round (dist * 100)) / 100)
                   \<bar>speed entity1 - speed entity2\<bar>\<rparr>)"

text \<open>
  The body of the inner loop for the indices \<open>i < j\<close>, on the events pushed so far and the
  entity array; the two entities are distinct objects of the array, mutated in place.
\<close>

definition collisionStep ::
  "SimulatorConfig \<Rightarrow> nat \<Rightarrow> nat \<Rightarrow> DTEvent list \<times> EntityState list
     \<Rightarrow> DTEvent list \<times> EntityState list" where
  "collisionStep cfg i j st =
     (let events = fst st; entityArray = snd st;
          entity1 = entityArray ! i; entity2 = entityArray ! j
      in if nearCollisionTest cfg entity1 entity2
         then (events @ [nearCollisionEvent entity1 entity2],
               (entityArray[i := entity1\<lparr>targetSpeed := targetSpeed entity1 * (1 / 2)\<rparr>])
                           [j := entity2\<lparr>targetSpeed := targetSpeed entity2 * (1 / 2)\<rparr>])
         else (events, entityArray))"

definition nearCollisionPass ::
  "SimulatorConfig \<Rightarrow> EntityState list \<Rightarrow> DTEvent list \<times> EntityState list" where
  "nearCollisionPass cfg es =
     fold (\<lambda>i st. fold (\<lambda>j. collisionStep cfg i j) [Suc i ..< length es] st)
          [0 ..< length es] ([], es)"

text \<open>
  The congestion part: \<open>recordOccupancy\<close> is the body of the loop that fills the
  \<open>laneOccupancy\<close> map, \<open>congestionEvents\<close> the loop over its entries.
\<close>

definition recordOccupancy ::
  "EntityState \<Rightarrow> (string \<times> string list) list \<Rightarrow> (string \<times> string list) list" where
  "recordOccupancy entity occ =
     (if truthy (currentLaneId entity) then
        (let lane = the (currentLaneId entity);
             occ1 = (if map_of occ lane = None then map_set occ lane [] else occ)
         in case map_of occ1 lane of
              Some ids \<Rightarrow> map_set occ1 lane (ids @ [ent_id entity])
            | None \<Rightarrow> occ1)
      else occ)"

definition laneOccupancy :: "EntityState list \<Rightarrow> (string \<times> string list) list" where
  "laneOccupancy es = fold recordOccupancy es []"

definition congestionEvent :: "SimulatorConfig \<Rightarrow> string \<times> string list \<Rightarrow> DTEvent" where
  "congestionEvent cfg entry =
     \<lparr>ev_type = congestion, assetIds = snd entry, ev_zoneId = fst entry,
      payload = CongestionPayload (length (snd entry)) (congestionThreshold cfg)\<rparr>"

definition congestionEvents ::
  "SimulatorConfig \<Rightarrow> (string \<times> string list) list \<Rightarrow> DTEvent list" where
  "congestionEvents cfg occ =
     map (congestionEvent cfg)
       (filter (\<lambda>entry. congestionThreshold cfg \<le> real (length (snd entry))) occ)"

definition checkProximityEvents ::
  "SimulatorConfig \<Rightarrow> EntityState list \<Rightarrow> DTEvent list \<times> EntityState list" where
  "checkProximityEvents cfg es =
     (let st = nearCollisionPass cfg es
      in (fst st @ congestionEvents cfg (laneOccupancy (snd st)), snd st))"

subsection \<open>Sample configuration, draws and entities\<close>

text \<open>
  \<open>serverConfig\<close> is the configuration the server builds; \<open>draws0\<close> makes every
  \<open>Math.random()\<close> return 0.  \<open>palletZ\<close> is on the zero-length lane, \<open>palletSlow\<close> stands at
  the start of lane \<open>A\<close> with a target speed of 0.05 (0.4 halved three times by the
  collision penalty), \<open>palletLost\<close> is on a lane that is not in the network, and
  \<open>failingGridMove\<close> is a grid update that throws at once.  \<open>laneE\<close> is a lane without
  points, the lane on which \<open>getPositionAtProgress\<close> throws, and \<open>palletE\<close> is part way
  along it; \<open>drawsHalf\<close> differs from \<open>draws0\<close> in the draw of the reset lane, and
  \<open>sameDraws d\<close> gives every entity of a tick the draws \<open>d\<close>.
\<close>

definition draws0 :: Draws where
  "draws0 = \<lparr>chooseDraw = 0, routeDraws = (\<lambda>_. 0), retargetDraw = 0, speedDraw = 0,
     jitterDraw = 0, resetGridDraw = 0, resetLaneDraw = 0, resetRouteDraws = (\<lambda>_. 0)\<rparr>"

definition serverConfig :: SimulatorConfig where
  "serverConfig = \<lparr>tickMs = 100, simSpeed = 1, forkliftSpeedRange = (8 / 10, 22 / 10),
     palletSpeedRange = (5 / 10, 18 / 10), workerSpeedRange = (3 / 10, 15 / 10),
     eventProbability = 1 / 1000, congestionThreshold = 3, collisionRadius = 15 / 10\<rparr>"

definition palletZ :: EntityState where
  "palletZ = pallet1\<lparr>currentLaneId := Some ''Z''\<rparr>"

definition palletSlow :: EntityState where
  "palletSlow = pallet1\<lparr>speed := 0, targetSpeed := 5 / 100\<rparr>"








subsection \<open>Notions used to state the event properties\<close>

text \<open>
  The occupants of a lane are the ids of the entities whose current lane id is that lane,
  in the order of the entity map.  \<open>untargeted\<close> forgets the target speed, the only field
  the near-collision loop writes.  \<open>index_pairs n\<close> lists the index pairs the two nested
  loops visit, \<open>testAt\<close> and \<open>eventAt\<close> are the test and the event of such a pair, and
  \<open>pass_inv\<close> is the invariant of the near-collision loop.
\<close>

definition occupants :: "EntityState list \<Rightarrow> string \<Rightarrow> string list" where
  "occupants es lane = map ent_id (filter (\<lambda>e. currentLaneId e = Some lane) es)"

definition untargeted :: "EntityState \<Rightarrow> EntityState" where
  "untargeted e = e\<lparr>targetSpeed := 0\<rparr>"

definition listed :: "(string \<times> string list) list \<Rightarrow> string \<Rightarrow> string list" where
  "listed occ lane = (case map_of occ lane of None \<Rightarrow> [] | Some ids \<Rightarrow> ids)"

definition pass_inv :: "EntityState list \<Rightarrow> DTEvent list \<times> EntityState list \<Rightarrow> bool" where
  "pass_inv es st =
     (map untargeted (snd st) = map untargeted es \<and>
      (\<forall>ev\<in>set (fst st). ev_type ev = nearCollision))"

definition index_pairs :: "nat \<Rightarrow> (nat \<times> nat) list" where
  "index_pairs n = concat (map (\<lambda>i. map (Pair i) [Suc i ..< n]) [0 ..< n])"

definition testAt :: "SimulatorConfig \<Rightarrow> EntityState list \<Rightarrow> nat \<times> nat \<Rightarrow> bool" where
  "testAt cfg es p = nearCollisionTest cfg (es ! fst p) (es ! snd p)"

definition eventAt :: "EntityState list \<Rightarrow> nat \<times> nat \<Rightarrow> DTEvent" where
  "eventAt es p = nearCollisionEvent (es ! fst p) (es ! snd p)"

text \<open>
  Two workers one unit apart, the first moving at 0.5; and four workers, three of them on
  lane \<open>L1\<close>.
\<close>

definition entityAt :: "string \<Rightarrow> string \<Rightarrow> real \<Rightarrow> real \<Rightarrow> EntityState" where
  "entityAt ident lane a v =
     \<lparr>ent_id = ident, etype = worker, ex = a, ey = 0, speed = v, heading = 0,
      targetSpeed = 1, currentLaneId = Some lane, laneProgress = 0, route = [lane],
      routeIndex = 0, lastEventTime = 0, zoneId = Some ''A1'', targetPosition = None\<rparr>"

definition closePair :: "EntityState list" where
  "closePair = [entityAt ''worker-1'' ''L1'' 0 (1 / 2), entityAt ''worker-2'' ''L2'' 1 0]"

definition crowd :: "EntityState list" where
  "crowd = [entityAt ''worker-1'' ''L1'' 0 0, entityAt ''worker-2'' ''L2'' 10 0,
            entityAt ''worker-3'' ''L1'' 20 0, entityAt ''worker-4'' ''L1'' 30 0]"

section \<open>Comparing square roots\<close>

text \<open>
  Distances are square roots; comparing one with a number is comparing its argument with
  the signed square of the number.
\<close>

lemma sqrt_signed_square: "sqrt (b * \<bar>b\<bar>) = b"
proof (cases "0 \<le> b")
  case True
  then show ?thesis by (simp add: real_sqrt_mult)
next
  case False
  then have "b * \<bar>b\<bar> = - (b * b)" by simp
  then show ?thesis using False by (simp add: real_sqrt_minus)
qed

lemma sqrt_less_iff: "(sqrt a < b) = (a < b * \<bar>b\<bar>)"
  using real_sqrt_less_iff [of a "b * \<bar>b\<bar>"] by (simp add: sqrt_signed_square)

lemma sqrt_le_iff: "(sqrt a \<le> b) = (a \<le> b * \<bar>b\<bar>)"
  using real_sqrt_le_iff [of a "b * \<bar>b\<bar>"] by (simp add: sqrt_signed_square)

lemma less_sqrt_iff: "(b < sqrt a) = (b * \<bar>b\<bar> < a)"
  using sqrt_le_iff [of a b] by linarith

lemma le_sqrt_iff: "(b \<le> sqrt a) = (b * \<bar>b\<bar> \<le> a)"
  using sqrt_less_iff [of a b] by linarith

lemma sqrt_mult_le_iff: "0 < c \<Longrightarrow> (sqrt a * c \<le> b) = (a \<le> (b / c) * \<bar>b / c\<bar>)"
  using sqrt_le_iff [of a "b / c"] by (simp add: field_simps)

lemma sqrt_mult_less_iff: "0 < c \<Longrightarrow> (sqrt a * c < b) = (a < (b / c) * \<bar>b / c\<bar>)"
  using sqrt_less_iff [of a "b / c"] by (simp add: field_simps)

lemmas sqrt_cmp = sqrt_less_iff sqrt_le_iff less_sqrt_iff le_sqrt_iff sqrt_mult_le_iff
  sqrt_mult_less_iff

section \<open>Start and stop are idempotent\<close>

lemma sched_inv_new: "sched_inv (newScheduler h0)"
  by (simp add: sched_inv_def newScheduler_def)

lemma sched_inv_start: "sched_inv s \<Longrightarrow> sched_inv (start s)"
  by (auto simp: sched_inv_def start_def setInterval_def Let_def split: if_splits)

lemma sched_inv_stop: "sched_inv s \<Longrightarrow> sched_inv (stop s)"
  by (auto simp: sched_inv_def stop_def clearInterval_def Let_def split: if_splits option.splits)

lemma sched_inv_fold: "sched_inv s \<Longrightarrow> sched_inv (fold call cs s)"
proof (induction cs arbitrary: s)
  case Nil
  then show ?case by simp
next
  case (Cons c cs)
  have "sched_inv (call c s)"
    using Cons.prems by (cases c) (simp_all add: sched_inv_start sched_inv_stop)
  then show ?case using Cons.IH by simp
qed

lemma sched_inv_after_calls: "sched_inv (after_calls h0 cs)"
  unfolding after_calls_def by (rule sched_inv_fold [OF sched_inv_new])

text \<open>
  Claim C9.  After any sequence of \<open>start\<close> and \<open>stop\<close> calls on a new simulator: a \<open>start\<close>
  while running changes nothing, so a second \<open>start\<close> leaves exactly the one timer of the
  first and one batch per interval; a \<open>stop\<close> while not running changes nothing; and after
  \<open>stop\<close> the running flag is false, \<open>intervalId\<close> is cleared and no timer is live.
\<close>

theorem start_stop_idempotent:
  "(let s = after_calls h0 cs in
      (running s \<longrightarrow> start s = s) \<and>
      start (start s) = start s \<and>
      batchesPerInterval (start (start s)) = 1 \<and>
      batchesPerInterval s \<le> 1 \<and>
      (\<not> running s \<longrightarrow> stop s = s) \<and>
      \<not> running (stop s) \<and> intervalId (stop s) = None \<and> timers (stop s) = [])"
proof -
  define s where "s = after_calls h0 cs"
  have inv: "sched_inv s"
    unfolding s_def by (rule sched_inv_after_calls)
  have r1: "running (start s)"
    by (simp add: start_def setInterval_def Let_def)
  have i1: "sched_inv (start s)"
    by (rule sched_inv_start [OF inv])
  have a: "running s \<longrightarrow> start s = s"
    by (simp add: start_def)
  have b: "start (start s) = start s"
    using r1 by (simp add: start_def [of "start s"])
  have c: "batchesPerInterval (start (start s)) = 1"
    using i1 r1 b by (auto simp: sched_inv_def batchesPerInterval_def)
  have d: "batchesPerInterval s \<le> 1"
    using inv by (auto simp: sched_inv_def batchesPerInterval_def split: if_splits)
  have e: "\<not> running s \<longrightarrow> stop s = s"
    by (simp add: stop_def)
  have i2: "sched_inv (stop s)"
    by (rule sched_inv_stop [OF inv])
  have f: "\<not> running (stop s)"
    by (simp add: stop_def Let_def clearInterval_def split: option.splits)
  have g: "intervalId (stop s) = None \<and> timers (stop s) = []"
    using i2 f by (simp add: sched_inv_def)
  show ?thesis
    unfolding s_def [symmetric] Let_def using a b c d e f g by blast
qed

theorem start_stop_idempotent_witness:
  "(let s = after_calls 1 [CallStart, CallStart] in
      running s \<and> start s = s \<and> batchesPerInterval s = 1 \<and>
      \<not> running (stop s) \<and> stop (stop s) = stop s \<and> timers (stop s) = [])"
  using start_stop_idempotent [of 1 "[CallStart, CallStart]"]
  by (simp add: after_calls_def newScheduler_def start_def stop_def setInterval_def
      clearInterval_def batchesPerInterval_def Let_def)

section \<open>Routes generated by the lane navigator\<close>

lemma at_index_in: "at_index xs i = Some v \<Longrightarrow> v \<in> set xs"
  by (auto simp: at_index_def split: if_splits)

lemma random_pick_in: "random_pick xs r = Some v \<Longrightarrow> v \<in> set xs"
  unfolding random_pick_def by (rule at_index_in)

lemma truthy_Some: "truthy s \<Longrightarrow> \<exists>v. s = Some v \<and> v \<noteq> []"
  by (cases s) (simp_all add: truthy_def)

lemma route_ok_single: "route_ok m [a]"
  by (simp add: route_ok_def)

lemma route_ok_snoc:
  assumes ok: "route_ok m rt" and ne: "rt \<noteq> []"
    and nx: "nx \<in> set (connectionsAt m (last rt))"
    and bt: "2 \<le> length rt \<Longrightarrow> nx = rt ! (length rt - 2) \<Longrightarrow>
             set (connectionsAt m (last rt)) = {nx}"
  shows "route_ok m (rt @ [nx])"
proof -
  have conn: "(rt @ [nx]) ! Suc k \<in> set (connectionsAt m ((rt @ [nx]) ! k))"
    if "Suc k < length (rt @ [nx])" for k
  proof (cases "Suc k < length rt")
    case True
    then show ?thesis using ok by (simp add: route_ok_def nth_append)
  next
    case False
    then have k: "Suc k = length rt" using that by simp
    then have "k = length rt - 1" by simp
    then have "(rt @ [nx]) ! k = last rt"
      using ne by (simp add: nth_append last_conv_nth)
    then show ?thesis using k nx by (simp add: nth_append)
  qed
  have bk: "set (connectionsAt m ((rt @ [nx]) ! (k + 1))) = {(rt @ [nx]) ! k}"
    if "k + 2 < length (rt @ [nx])" and "(rt @ [nx]) ! (k + 2) = (rt @ [nx]) ! k" for k
  proof (cases "k + 2 < length rt")
    case True
    then show ?thesis using ok that by (simp add: route_ok_def nth_append)
  next
    case False
    then have k: "k + 2 = length rt" using that by simp
    then have l: "2 \<le> length rt" and lk: "length rt - 2 = k" and lk1: "length rt - 1 = k + 1"
      by simp_all
    have lt: "k + 1 < length rt" using k by simp
    have "last rt = rt ! (length rt - 1)" using ne by (simp add: last_conv_nth)
    then have lst: "last rt = rt ! (k + 1)" using lk1 by simp
    have "(rt @ [nx]) ! (k + 1) = rt ! (k + 1)" using lt by (simp add: nth_append)
    then have mid: "(rt @ [nx]) ! (k + 1) = last rt" using lst by simp
    have eqn: "nx = rt ! (length rt - 2)"
      using that(2) k by (simp add: nth_append lk)
    have "(rt @ [nx]) ! k = nx"
      using eqn k by (simp add: nth_append lk)
    then show ?thesis using bt [OF l eqn] mid by simp
  qed
  show ?thesis unfolding route_ok_def using conn bk by blast
qed

text \<open>One iteration of the loop: either it breaks, or it appends a connection.\<close>

lemma routeWalk_step:
  obtains (stop) "routeWalk m rs i (Suc k) rt cur = rt"
    | (go) nx where "routeWalk m rs i (Suc k) rt cur = routeWalk m rs (Suc i) k (rt @ [nx]) nx"
      and "connectionsAt m cur \<noteq> []"
      and "nx \<in> set (connectionsAt m cur)"
      and "2 \<le> length rt \<Longrightarrow> nx = rt ! (length rt - 2) \<Longrightarrow> set (connectionsAt m cur) = {nx}"
proof -
  define conns where "conns = connectionsAt m cur"
  define valid where "valid = filter (\<lambda>conn. length rt < 2 \<or> conn \<noteq> rt ! (length rt - 2)) conns"
  define nxt where "nxt = (if valid \<noteq> [] then random_pick valid (rs i) else random_pick conns (rs i))"
  have unf: "routeWalk m rs i (Suc k) rt cur =
     (if conns = [] then rt else if \<not> truthy nxt then rt
      else routeWalk m rs (Suc i) k (rt @ [the nxt]) (the nxt))"
    by (simp add: Let_def conns_def valid_def nxt_def)
  show thesis
  proof (cases "conns = [] \<or> \<not> truthy nxt")
    case True
    then have "routeWalk m rs i (Suc k) rt cur = rt" using unf by auto
    then show thesis by (rule stop)
  next
    case False
    then have t: "truthy nxt" and ne: "conns \<noteq> []" by simp_all
    obtain nx where nx: "nxt = Some nx" using truthy_Some [OF t] by blast
    have r: "routeWalk m rs i (Suc k) rt cur = routeWalk m rs (Suc i) k (rt @ [nx]) nx"
      using unf False nx by simp
    have sub: "set valid \<subseteq> set conns" by (auto simp: valid_def)
    have inv: "valid \<noteq> [] \<Longrightarrow> nx \<in> set valid"
      using nx random_pick_in [of valid "rs i" nx] by (simp add: nxt_def)
    have inc: "nx \<in> set conns"
    proof (cases "valid = []")
      case True
      then show ?thesis using nx random_pick_in [of conns "rs i" nx] by (simp add: nxt_def)
    next
      case False
      then show ?thesis using inv sub by blast
    qed
    have bt: "set conns = {nx}" if "2 \<le> length rt" and e: "nx = rt ! (length rt - 2)"
    proof -
      have "valid = []"
      proof (rule ccontr)
        assume "valid \<noteq> []"
        then have "nx \<in> set valid" by (rule inv)
        then show False using that by (simp add: valid_def)
      qed
      then have "\<And>c. c \<in> set conns \<Longrightarrow> c = nx"
        using that by (simp add: valid_def filter_empty_conv)
      then have "set conns \<subseteq> {nx}" by blast
      then show ?thesis using inc by blast
    qed
    show thesis
      using go [OF r] ne inc bt unfolding conns_def by blast
  qed
qed

lemma routeWalk_ok:
  "route_ok m rt \<Longrightarrow> rt \<noteq> [] \<Longrightarrow> last rt = cur \<Longrightarrow> route_ok m (routeWalk m rs i k rt cur)"
proof (induction k arbitrary: i rt cur)
  case 0
  then show ?case by simp
next
  case (Suc k)
  show ?case
  proof (cases rule: routeWalk_step [of m rs i k rt cur])
    case stop
    then show ?thesis using Suc.prems(1) by simp
  next
    case (go nx)
    have "route_ok m (rt @ [nx])"
      using route_ok_snoc [OF Suc.prems(1,2), of nx] go(3,4) Suc.prems(3) by simp
    then show ?thesis using Suc.IH [of "rt @ [nx]" nx "Suc i"] go(1) by simp
  qed
qed

lemma routeWalk_shape:
  "rt \<noteq> [] \<Longrightarrow>
   routeWalk m rs i k rt cur \<noteq> [] \<and> hd (routeWalk m rs i k rt cur) = hd rt \<and>
   length (routeWalk m rs i k rt cur) \<le> length rt + k"
proof (induction k arbitrary: i rt cur)
  case 0
  then show ?case by simp
next
  case (Suc k)
  show ?case
  proof (cases rule: routeWalk_step [of m rs i k rt cur])
    case stop
    then show ?thesis using Suc.prems by simp
  next
    case (go nx)
    show ?thesis
      using Suc.IH [of "rt @ [nx]" "Suc i" nx] Suc.prems go(1) by simp
  qed
qed

lemma generateRandomRoute_ok: "route_ok m (generateRandomRoute m s len rs)"
  unfolding generateRandomRoute_def
  by (rule routeWalk_ok) (simp_all add: route_ok_single)

text \<open>
  Claim C7.  In a generated route, a hop never returns to the lane two positions back when
  the lane in between has another connection; when it does return, that lane is the only
  connection of the lane in between; and a lane with no connections can only be the last
  element: the walk stops there.  This holds for every connection map, start lane, length
  and sequence of random draws.
\<close>

theorem generateRandomRoute_no_backtrack:
  "(let rt = generateRandomRoute m startLaneId len rs in
      (\<forall>k. k + 2 < length rt \<and> (\<exists>c\<in>set (connectionsAt m (rt ! (k + 1))). c \<noteq> rt ! k)
            \<longrightarrow> rt ! (k + 2) \<noteq> rt ! k) \<and>
      (\<forall>k. k + 2 < length rt \<and> rt ! (k + 2) = rt ! k
            \<longrightarrow> set (connectionsAt m (rt ! (k + 1))) = {rt ! k}) \<and>
      (\<forall>k. k < length rt \<and> connectionsAt m (rt ! k) = [] \<longrightarrow> Suc k = length rt))"
proof -
  define rt where "rt = generateRandomRoute m startLaneId len rs"
  have ok: "route_ok m rt"
    unfolding rt_def by (rule generateRandomRoute_ok)
  have sole: "set (connectionsAt m (rt ! (k + 1))) = {rt ! k}"
    if "k + 2 < length rt" "rt ! (k + 2) = rt ! k" for k
    using ok that unfolding route_ok_def by blast
  have alt: "rt ! (k + 2) \<noteq> rt ! k"
    if "k + 2 < length rt" "\<exists>c\<in>set (connectionsAt m (rt ! (k + 1))). c \<noteq> rt ! k" for k
    using sole [of k] that by auto
  have dead: "Suc k = length rt" if "k < length rt" "connectionsAt m (rt ! k) = []" for k
  proof (rule ccontr)
    assume "Suc k \<noteq> length rt"
    then have "Suc k < length rt" using that(1) by simp
    then have "rt ! Suc k \<in> set (connectionsAt m (rt ! k))"
      using ok unfolding route_ok_def by blast
    then show False using that(2) by simp
  qed
  show ?thesis
    unfolding rt_def [symmetric] Let_def using sole alt dead by blast
qed

theorem generateRandomRoute_no_backtrack_witness:
  "(let rt = generateRandomRoute net3 ''A'' 5 (\<lambda>_. 0);
        rt' = generateRandomRoute net2 ''A'' 4 (\<lambda>_. 0)
    in rt = [''A'', ''B'', ''C''] \<and> ''C'' \<in> set (connectionsAt net3 (rt ! 1)) \<and>
       rt ! 2 \<noteq> rt ! 0 \<and> connectionsAt net3 (rt ! 2) = [] \<and> length rt = 3 \<and>
       rt' = [''A'', ''B'', ''A'', ''B''] \<and> rt' ! 2 = rt' ! 0 \<and>
       set (connectionsAt net2 (rt' ! 1)) = {rt' ! 0})"
  using generateRandomRoute_no_backtrack [of net3 "''A''" 5 "\<lambda>_. 0"]
    generateRandomRoute_no_backtrack [of net2 "''A''" 4 "\<lambda>_. 0"]
  by (simp add: generateRandomRoute_def net3_def net2_def eval_nat_numeral connectionsAt_def
      Let_def random_pick_def at_index_def truthy_def)

section \<open>The built lane graph\<close>

lemma build_A_B_A2:
  "buildLaneConnections [laneA, laneB, laneA2] = [(''A'', []), (''B'', [''A''])]"
  by (simp add: buildLaneConnections_def collectConnections_def endpointsClose_def distance_def
      connectionRadius_def laneA_def laneB_def laneA2_def Let_def sqrt_cmp)

lemma build_A_B:
  "buildLaneConnections [laneA, laneB] = [(''A'', [''B'']), (''B'', [''A''])]"
  by (simp add: buildLaneConnections_def collectConnections_def endpointsClose_def distance_def
      connectionRadius_def laneA_def laneB_def Let_def sqrt_cmp)

lemma map_set_keys:
  "map fst (map_set m k v) = (if k \<in> fst ` set m then map fst m else map fst m @ [k])"
  by (induction m k v rule: map_set.induct) auto

lemma map_set_distinct: "distinct (map fst m) \<Longrightarrow> distinct (map fst (map_set m k v))"
  by (simp add: map_set_keys)

lemma map_of_map_set: "map_of (map_set m k v) = (map_of m)(k \<mapsto> v)"
  by (induction m k v rule: map_set.induct) auto

lemma build_fold_distinct:
  "distinct (map fst m) \<Longrightarrow>
   distinct (map fst (fold (\<lambda>lane m. if points lane = [] then m
                     else map_set m (lane_id lane) (f lane)) ls m))"
  by (induction ls arbitrary: m) (simp_all add: map_set_distinct)

lemma buildLaneConnections_distinct: "distinct (map fst (buildLaneConnections lanes))"
  unfolding buildLaneConnections_def by (rule build_fold_distinct) simp

lemma findReturnLane_Some:
  "findReturnLane m cur = Some l \<Longrightarrow> l \<noteq> cur \<and> (\<exists>cs. (l, cs) \<in> set m \<and> cur \<in> set cs)"
  by (induction m cur rule: findReturnLane.induct) (auto split: if_splits)

lemma findReturnLane_None:
  "findReturnLane m cur = None \<Longrightarrow> (l, cs) \<in> set m \<Longrightarrow> cur \<in> set cs \<Longrightarrow> l = cur"
  by (induction m cur rule: findReturnLane.induct) (auto split: if_splits)

lemma connectionsAt_entry:
  "distinct (map fst m) \<Longrightarrow> (l, cs) \<in> set m \<Longrightarrow> connectionsAt m l = cs"
  by (simp add: connectionsAt_def)

lemma connectionsAt_mem:
  "c \<in> set (connectionsAt m l) \<Longrightarrow> \<exists>cs. (l, cs) \<in> set m \<and> c \<in> set cs"
  by (cases "map_of m l") (auto simp: connectionsAt_def dest: map_of_SomeD)

text \<open>
  Claim C6.  On a lane whose connection list in the built graph is empty, \<open>chooseNextLane\<close>
  returns another lane that lists the current lane whenever some lane lists it, every lane
  it returns is such a lane, and it returns null only when no lane lists the current lane.
\<close>

theorem chooseNextLane_dead_end:
  assumes "connectionsAt (buildLaneConnections lanes) cur = []"
  shows "(let m = buildLaneConnections lanes; res = chooseNextLane m cur entity r in
      ((\<exists>l. cur \<in> set (connectionsAt m l)) \<longrightarrow>
         (\<exists>l. res = Some l \<and> l \<noteq> cur \<and> cur \<in> set (connectionsAt m l))) \<and>
      (\<forall>l. res = Some l \<longrightarrow> l \<noteq> cur \<and> cur \<in> set (connectionsAt m l)) \<and>
      (res = None \<longrightarrow> (\<forall>l. cur \<notin> set (connectionsAt m l))))"
proof -
  define m where "m = buildLaneConnections lanes"
  define res where "res = chooseNextLane m cur entity r"
  have d: "distinct (map fst m)"
    unfolding m_def by (rule buildLaneConnections_distinct)
  have e: "connectionsAt m cur = []"
    using assms by (simp add: m_def)
  have res_eq: "res = findReturnLane m cur"
    using e by (simp add: res_def chooseNextLane_def)
  have some: "l \<noteq> cur \<and> cur \<in> set (connectionsAt m l)" if "res = Some l" for l
  proof -
    have "findReturnLane m cur = Some l" using that res_eq by simp
    then obtain cs where "l \<noteq> cur" "(l, cs) \<in> set m" "cur \<in> set cs"
      using findReturnLane_Some [of m cur l] by blast
    then show ?thesis using connectionsAt_entry [OF d] by auto
  qed
  have none: "cur \<notin> set (connectionsAt m l)" if "res = None" for l
  proof
    assume "cur \<in> set (connectionsAt m l)"
    then obtain cs where cs: "(l, cs) \<in> set m" "cur \<in> set cs"
      using connectionsAt_mem by blast
    moreover have "findReturnLane m cur = None" using that res_eq by simp
    ultimately have "l = cur" using findReturnLane_None [of m cur l cs] by simp
    then have "connectionsAt m cur = cs" using connectionsAt_entry [OF d cs(1)] by simp
    then show False using e cs(2) by simp
  qed
  have ex: "\<exists>l'. res = Some l' \<and> l' \<noteq> cur \<and> cur \<in> set (connectionsAt m l')"
    if "cur \<in> set (connectionsAt m l)" for l
  proof (cases res)
    case None
    then show ?thesis using none that by blast
  next
    case (Some l')
    then show ?thesis using some by blast
  qed
  show ?thesis
    unfolding m_def [symmetric] res_def [symmetric] Let_def using some none ex by blast
qed

theorem chooseNextLane_dead_end_witness:
  "(let m = buildLaneConnections [laneA, laneB, laneA2] in
      connectionsAt m ''A'' = [] \<and> ''A'' \<in> set (connectionsAt m ''B'') \<and>
      chooseNextLane m ''A'' pallet1 0 = Some ''B'')"
  using chooseNextLane_dead_end [of "[laneA, laneB, laneA2]" "''A''" pallet1 0]
  by (simp add: build_A_B_A2 connectionsAt_def chooseNextLane_def)

text \<open>
  Claim C10.  For a requested length of at least 1 the generated route is not empty, starts
  with the start lane, is no longer than requested, and each hop leads to a connection of
  the lane before it in the built connection map.  (The start lane need not even be a lane
  of the network.)
\<close>

theorem generateRandomRoute_connected:
  assumes "1 \<le> len"
  shows "(let m = buildLaneConnections lanes; rt = generateRandomRoute m startLaneId len rs in
      rt \<noteq> [] \<and> hd rt = startLaneId \<and> int (length rt) \<le> len \<and>
      (\<forall>k. Suc k < length rt \<longrightarrow> rt ! Suc k \<in> set (connectionsAt m (rt ! k))))"
proof -
  define m where "m = buildLaneConnections lanes"
  define rt where "rt = generateRandomRoute m startLaneId len rs"
  have shape: "rt \<noteq> [] \<and> hd rt = startLaneId \<and> length rt \<le> 1 + nat (len - 1)"
    using routeWalk_shape [of "[startLaneId]" m rs 0 "nat (len - 1)" startLaneId]
    by (simp add: rt_def generateRandomRoute_def)
  have len: "int (length rt) \<le> len"
    using shape assms by linarith
  have "route_ok m rt"
    unfolding rt_def by (rule generateRandomRoute_ok)
  then have conn: "\<forall>k. Suc k < length rt \<longrightarrow> rt ! Suc k \<in> set (connectionsAt m (rt ! k))"
    by (simp add: route_ok_def)
  show ?thesis
    unfolding m_def [symmetric] rt_def [symmetric] Let_def using shape len conn by blast
qed

theorem generateRandomRoute_connected_witness:
  "(let m = buildLaneConnections [laneA, laneB]; rt = generateRandomRoute m ''A'' 3 (\<lambda>_. 0) in
      (1::int) \<le> 3 \<and> rt = [''A'', ''B'', ''A''] \<and> hd rt = ''A'' \<and> int (length rt) \<le> 3 \<and>
      rt ! 1 \<in> set (connectionsAt m (rt ! 0)) \<and> rt ! 2 \<in> set (connectionsAt m (rt ! 1)))"
  using generateRandomRoute_connected [of 3 "[laneA, laneB]" "''A''" "\<lambda>_. 0"]
  by (simp add: build_A_B generateRandomRoute_def eval_nat_numeral connectionsAt_def
      Let_def random_pick_def at_index_def truthy_def)

section \<open>Snapping to the path network\<close>













section \<open>The divisor of the progress increment\<close>

lemma laneZ_length: "polylineLength (points laneZ) = 0"
  by (simp add: laneZ_def distance_def)

lemma coincident_points_length: "polylineLength (replicate n p) = 0"
proof (induction n)
  case 0
  then show ?case by simp
next
  case (Suc n)
  then show ?case by (cases n) (simp_all add: distance_def)
qed

text \<open>
  Claim C2 does not hold of the code.  \<open>WarehouseSimulator.calculateLaneLength\<close> floors the
  length at 1, but \<open>LaneNavigator.advanceAlongLane\<close> divides by the length computed by
  \<open>LaneNavigator.calculateLaneLength\<close>, which has no floor.  On the lane \<open>Z\<close>, whose two points
  coincide, that divisor is 0: the progress increment is \<open>Infinity\<close> for a moving entity and
  \<open>NaN\<close> for one at rest, and the advancement reports the end of the lane at once.
\<close>

theorem advanceAlongLane_divides_by_zero:
  "LaneNavigator_calculateLaneLength laneZ = 0 \<and>
   WarehouseSimulator_calculateLaneLength laneZ = 1 \<and>
   progressIncrement laneZ palletZ (1 / 10) = PosInf \<and>
   progressIncrement laneZ (palletZ\<lparr>speed := 0\<rparr>) (1 / 10) = NaN \<and>
   advanceAlongLane [laneZ] palletZ (1 / 10) =
     Inr \<lparr>adv_position = \<lparr>xc = 5, yc = 5\<rparr>, adv_heading = 0, reachedEnd = True\<rparr>"
  by (simp add: LaneNavigator_calculateLaneLength_def WarehouseSimulator_calculateLaneLength_def
      laneZ_length progressIncrement_def js_div_def palletZ_def pallet1_def advanceAlongLane_def
      js_add_def js_min1_def js_ge1_def getPositionAtProgress_def getHeadingAtProgress_def
      headingOfSegment_def at_index_def atan2_def Let_def)
     (simp add: laneZ_def)

section \<open>Lane progress after an update\<close>

lemma sqrt_100: "sqrt 100 = 10"
  using real_sqrt_abs [of 10] by simp

lemma laneA_length: "polylineLength (points laneA) = 10"
  by (simp add: laneA_def distance_def sqrt_100)

lemma slow_pallet_first_update:
  "updateLaneBasedMovement [laneA] (buildLaneConnections [laneA]) serverConfig draws0 palletSlow (1 / 10)
     = Returned (palletSlow\<lparr>speed := - (5 / 1000)\<rparr>)"
  apply (simp add: updateLaneBasedMovement_def advanceAlongLane_def progressIncrement_def
      LaneNavigator_calculateLaneLength_def WarehouseSimulator_calculateLaneLength_def
      laneA_length js_div_def js_add_def js_min1_def js_ge1_def getPositionAtProgress_def
      getHeadingAtProgress_def headingOfSegment_def getLane_def truthy_def lerp_def
      palletSlow_def pallet1_def draws0_def Let_def at_index_def atan2_def)
  apply (simp add: laneA_def)
  done

lemma slow_pallet_second_update:
  "updateLaneBasedMovement [laneA] (buildLaneConnections [laneA]) serverConfig draws0
      (palletSlow\<lparr>speed := - (5 / 1000)\<rparr>) (1 / 10)
     = Returned (palletSlow\<lparr>laneProgress := - (5 / 100000), speed := - (95 / 10000)\<rparr>)"
  apply (simp add: updateLaneBasedMovement_def advanceAlongLane_def progressIncrement_def
      LaneNavigator_calculateLaneLength_def WarehouseSimulator_calculateLaneLength_def
      laneA_length js_div_def js_add_def js_min1_def js_ge1_def getPositionAtProgress_def
      getHeadingAtProgress_def headingOfSegment_def getLane_def truthy_def lerp_def
      palletSlow_def pallet1_def draws0_def Let_def at_index_def atan2_def)
  apply (simp add: laneA_def)
  done

text \<open>
  Claim C1 does not hold of the code.  The speed update draws the speed towards
  \<open>targetSpeed + (Math.random() - 0.5) * 0.2\<close>, which is negative for a target speed below
  0.1, and nothing keeps the speed or the progress from going below 0.  From a pallet at
  progress 0 with speed 0 and target speed 0.05, two updates with the server's tick length
  give first a negative speed and then a negative \<open>laneProgress\<close>; no transition is made.
\<close>

theorem lane_progress_goes_negative:
  "(let lanes = [laneA]; m = buildLaneConnections lanes;
        deltaTime = tickMs serverConfig / 1000 * simSpeed serverConfig;
        e1 = palletSlow\<lparr>speed := - (5 / 1000)\<rparr>;
        e2 = palletSlow\<lparr>laneProgress := - (5 / 100000), speed := - (95 / 10000)\<rparr>
    in laneProgress palletSlow = 0 \<and> 0 \<le> speed palletSlow \<and> 0 \<le> targetSpeed palletSlow \<and>
       updateLaneBasedMovement lanes m serverConfig draws0 palletSlow deltaTime = Returned e1 \<and>
       speed e1 < 0 \<and>
       updateLaneBasedMovement lanes m serverConfig draws0 e1 deltaTime = Returned e2 \<and>
       laneProgress e2 < 0)"
proof -
  have dt: "tickMs serverConfig / 1000 * simSpeed serverConfig = 1 / 10"
    by (simp add: serverConfig_def)
  show ?thesis
    unfolding Let_def dt slow_pallet_first_update slow_pallet_second_update
    by (simp add: palletSlow_def pallet1_def)
qed

text \<open>
  What does hold of the lane update.  On a lane of positive length, for an entity whose
  progress is not negative and whose travel \<open>speed * deltaTime\<close> is not negative, the update
  returns, the progress afterwards lies in the interval from 0 to 1 without 1, and the
  transition is made exactly when the progress advanced by \<open>speed * deltaTime / length\<close>
  reaches 1; without a transition the entity stays on its lane and its progress advances by
  the travel divided by the floored length.
\<close>

lemma polylineLength_nonneg: "0 \<le> polylineLength ps"
  by (induction ps rule: polylineLength.induct) (simp_all add: distance_def)

lemma polylineLength_pos_points: "0 < polylineLength ps \<Longrightarrow> ps \<noteq> []"
  by (cases ps) simp_all

lemma getPositionAtProgress_returns:
  "points lane \<noteq> [] \<Longrightarrow> \<exists>pos. getPositionAtProgress lane v = Inr pos"
  by (cases v) (auto simp: getPositionAtProgress_def Let_def split: option.splits)

lemma transitionToNextLane_progress:
  "truthy (currentLaneId e) \<Longrightarrow> laneProgress (transitionToNextLane lanes m cfg rnd e) = 0"
  by (simp add: transitionToNextLane_def Let_def)

lemma advanceAlongLane_reachedEnd:
  assumes lane: "find (\<lambda>l. Some (lane_id l) = currentLaneId e) lanes = Some lane"
    and len: "0 < polylineLength (points lane)"
  shows "\<exists>adv. advanceAlongLane lanes e dt = Inr adv \<and>
           reachedEnd adv = (1 \<le> laneProgress e + speed e * dt / polylineLength (points lane))"
proof -
  define np where "np = Fin (min 1 (laneProgress e + speed e * dt / polylineLength (points lane)))"
  have inc: "js_min1 (js_add (laneProgress e) (progressIncrement lane e dt)) = np"
    using len
    by (simp add: progressIncrement_def LaneNavigator_calculateLaneLength_def js_div_def
        js_add_def js_min1_def np_def Let_def)
  obtain pos where pos: "getPositionAtProgress lane np = Inr pos"
    using getPositionAtProgress_returns [OF polylineLength_pos_points [OF len]] by blast
  have "advanceAlongLane lanes e dt =
          Inr \<lparr>adv_position = pos, adv_heading = getHeadingAtProgress lane np,
               reachedEnd = js_ge1 np\<rparr>"
    by (simp add: advanceAlongLane_def lane inc pos Let_def)
  moreover have "js_ge1 np = (1 \<le> laneProgress e + speed e * dt / polylineLength (points lane))"
    by (simp add: js_ge1_def np_def)
  ultimately show ?thesis by simp
qed

lemma lane_update_when_moving_forward:
  assumes cur: "currentLaneId e = Some c" "c \<noteq> []"
    and lane: "find (\<lambda>l. Some (lane_id l) = currentLaneId e) lanes = Some lane"
    and len: "0 < polylineLength (points lane)"
    and nn: "0 \<le> laneProgress e" "0 \<le> speed e * dt"
  shows "\<exists>e'. updateLaneBasedMovement lanes m cfg rnd e dt = Returned e' \<and>
      0 \<le> laneProgress e' \<and> laneProgress e' < 1 \<and>
      (if 1 \<le> laneProgress e + speed e * dt / polylineLength (points lane)
       then laneProgress e' = 0
       else currentLaneId e' = currentLaneId e \<and>
            laneProgress e' =
              laneProgress e + speed e * dt / max (polylineLength (points lane)) 1)"
proof -
  define L where "L = polylineLength (points lane)"
  define d where "d = speed e * dt"
  define p where "p = laneProgress e"
  have L: "0 < L" using len by (simp add: L_def)
  obtain adv where adv: "advanceAlongLane lanes e dt = Inr adv"
      and re: "reachedEnd adv = (1 \<le> p + d / L)"
    using advanceAlongLane_reachedEnd [OF lane len, of dt] by (auto simp: L_def d_def p_def)
  have t: "truthy (currentLaneId e)" using cur by (simp add: truthy_def)
  have "find (\<lambda>l. lane_id l = c) lanes = find (\<lambda>l. Some (lane_id l) = currentLaneId e) lanes"
    using cur by (intro find_cong) auto
  then have gl: "getLane lanes c = Some lane"
    using lane by (simp only: getLane_def)
  have le: "d / max L 1 \<le> d / L"
    using L nn(2) by (simp add: d_def frac_le)
  have ge: "0 \<le> d / max L 1"
    using L nn(2) by (simp add: d_def)
  define e2 where "e2 = e\<lparr>ex := xc (adv_position adv), ey := yc (adv_position adv),
      heading := adv_heading adv, laneProgress := p + d / max L 1\<rparr>"
  define e3 where "e3 = (if reachedEnd adv \<or> 1 \<le> laneProgress e2
      then transitionToNextLane lanes m cfg rnd e2 else e2)"
  define e' where "e' = e3\<lparr>speed := lerp (speed e3)
      (targetSpeed e3 + (jitterDraw rnd - 1 / 2) * (2 / 10)) (1 / 10)\<rparr>"
  have upd: "updateLaneBasedMovement lanes m cfg rnd e dt = Returned e'"
    using t cur gl
    by (simp add: updateLaneBasedMovement_def adv Let_def e'_def e3_def e2_def
        WarehouseSimulator_calculateLaneLength_def L_def d_def p_def)
  have t2: "truthy (currentLaneId e2)" using t by (simp add: e2_def)
  have cond: "(reachedEnd adv \<or> 1 \<le> laneProgress e2) = (1 \<le> p + d / L)"
    using re le by (auto simp: e2_def)
  have lp: "laneProgress e' = laneProgress e3" by (simp add: e'_def)
  have cl: "currentLaneId e' = currentLaneId e3" by (simp add: e'_def)
  show ?thesis
  proof (cases "1 \<le> p + d / L")
    case True
    then have "e3 = transitionToNextLane lanes m cfg rnd e2"
      using cond by (simp add: e3_def)
    then have "laneProgress e' = 0"
      using transitionToNextLane_progress [OF t2] lp by simp
    then show ?thesis using upd True by (simp add: L_def d_def p_def)
  next
    case False
    then have "e3 = e2" using cond by (simp add: e3_def)
    then have a: "laneProgress e' = p + d / max L 1" "currentLaneId e' = currentLaneId e"
      using lp cl by (simp_all add: e2_def)
    have "0 \<le> p + d / max L 1" using nn(1) ge by (simp add: p_def)
    moreover have "p + d / max L 1 < 1" using False le by linarith
    ultimately show ?thesis using upd False a by (simp add: L_def d_def p_def)
  qed
qed

section \<open>Recovery of an entity whose update throws\<close>













section \<open>Congestion events\<close>

lemma recordOccupancy_distinct:
  "distinct (map fst occ) \<Longrightarrow> distinct (map fst (recordOccupancy e occ))"
  by (auto simp: recordOccupancy_def Let_def map_set_distinct map_of_map_set split: option.splits)

lemma recordOccupancy_map_of:
  "map_of (recordOccupancy e occ) k =
     (if k \<noteq> [] \<and> currentLaneId e = Some k then Some (listed occ k @ [ent_id e])
      else map_of occ k)"
proof (cases "truthy (currentLaneId e)")
  case False
  then show ?thesis
    by (auto simp: recordOccupancy_def truthy_def split: option.splits)
next
  case True
  then obtain c where c: "currentLaneId e = Some c" "c \<noteq> []"
    by (cases "currentLaneId e") (auto simp: truthy_def)
  show ?thesis
  proof (cases "map_of occ c")
    case None
    then show ?thesis using c True
      by (auto simp: recordOccupancy_def Let_def map_of_map_set listed_def)
  next
    case (Some ids)
    then show ?thesis using c True
      by (auto simp: recordOccupancy_def Let_def map_of_map_set listed_def)
  qed
qed

lemma fold_recordOccupancy:
  "distinct (map fst occ) \<Longrightarrow>
   distinct (map fst (fold recordOccupancy es occ)) \<and>
   (\<forall>k. map_of (fold recordOccupancy es occ) k =
        (if k \<noteq> [] \<and> occupants es k \<noteq> [] then Some (listed occ k @ occupants es k)
         else map_of occ k))"
proof (induction es arbitrary: occ)
  case Nil
  then show ?case by (simp add: occupants_def)
next
  case (Cons e es)
  have d: "distinct (map fst (recordOccupancy e occ))"
    using Cons.prems by (rule recordOccupancy_distinct)
  have l: "listed (recordOccupancy e occ) k =
      (if k \<noteq> [] \<and> currentLaneId e = Some k then listed occ k @ [ent_id e] else listed occ k)"
    for k
    by (simp add: listed_def [of "recordOccupancy e occ"] recordOccupancy_map_of)
       (simp add: listed_def)
  show ?case
    using Cons.IH [OF d] by (auto simp: l recordOccupancy_map_of occupants_def)
qed

lemma laneOccupancy_map_of:
  "map_of (laneOccupancy es) k =
     (if k \<noteq> [] \<and> occupants es k \<noteq> [] then Some (occupants es k) else None)"
  using fold_recordOccupancy [of "[]" es] by (simp add: laneOccupancy_def listed_def)

lemma laneOccupancy_distinct: "distinct (map fst (laneOccupancy es))"
  using fold_recordOccupancy [of "[]" es] by (simp add: laneOccupancy_def)

lemma filter_key_distinct:
  "distinct (map fst occ) \<Longrightarrow>
   filter (\<lambda>entry. fst entry = k \<and> P entry) occ =
     (case map_of occ k of None \<Rightarrow> [] | Some v \<Rightarrow> if P (k, v) then [(k, v)] else [])"
proof (induction occ)
  case Nil
  then show ?case by simp
next
  case (Cons a occ)
  obtain k' v' where a: "a = (k', v')" by (cases a)
  show ?case
  proof (cases "k' = k")
    case True
    then have "k \<notin> fst ` set occ" using Cons.prems a by auto
    then have "filter (\<lambda>entry. fst entry = k \<and> P entry) occ = []"
      by (auto simp: filter_empty_conv)
    then show ?thesis using True a by simp
  next
    case False
    then show ?thesis using Cons a by simp
  qed
qed

lemma fold_invariant:
  assumes "P s" and "\<And>a s. P s \<Longrightarrow> P (f a s)"
  shows "P (fold f xs s)"
  using assms(1) by (induction xs arbitrary: s) (simp_all add: assms(2))

lemma untargeted_update:
  "map untargeted (xs[i := (xs ! i)\<lparr>targetSpeed := t\<rparr>]) = map untargeted xs"
proof (cases "i < length xs")
  case True
  have "untargeted ((xs ! i)\<lparr>targetSpeed := t\<rparr>) = map untargeted xs ! i"
    using True by (simp add: untargeted_def)
  then show ?thesis by (simp add: map_update)
next
  case False
  then have "xs[i := (xs ! i)\<lparr>targetSpeed := t\<rparr>] = xs"
    by (simp add: list_update_beyond)
  then show ?thesis by simp
qed

lemma collisionStep_untargeted:
  assumes "i \<noteq> j"
  shows "map untargeted (snd (collisionStep cfg i j st)) = map untargeted (snd st)"
proof -
  define xs where "xs = snd st"
  define ys where "ys = xs[i := (xs ! i)\<lparr>targetSpeed := targetSpeed (xs ! i) * (1 / 2)\<rparr>]"
  have y: "map untargeted ys = map untargeted xs"
    unfolding ys_def by (rule untargeted_update)
  have "ys[j := (xs ! j)\<lparr>targetSpeed := targetSpeed (xs ! j) * (1 / 2)\<rparr>] =
        ys[j := (ys ! j)\<lparr>targetSpeed := targetSpeed (xs ! j) * (1 / 2)\<rparr>]"
    using assms by (simp add: ys_def)
  then have "map untargeted (ys[j := (xs ! j)\<lparr>targetSpeed := targetSpeed (xs ! j) * (1 / 2)\<rparr>])
      = map untargeted xs"
    using untargeted_update [of ys j] y by simp
  then show ?thesis
    by (simp add: collisionStep_def Let_def xs_def ys_def)
qed

lemma collisionStep_types:
  assumes "\<forall>ev\<in>set (fst st). ev_type ev = nearCollision"
  shows "\<forall>ev\<in>set (fst (collisionStep cfg i j st)). ev_type ev = nearCollision"
  using assms by (simp add: collisionStep_def Let_def nearCollisionEvent_def)

lemma pass_inv_inner:
  assumes "pass_inv es st"
  shows "pass_inv es (fold (\<lambda>j. collisionStep cfg i j) [Suc i ..< n] st)"
proof -
  have "pass_inv es (fold (\<lambda>j. collisionStep cfg i j) js st)" if "i \<notin> set js" for js
    using that assms
  proof (induction js arbitrary: st)
    case Nil
    then show ?case by simp
  next
    case (Cons j js)
    have "pass_inv es (collisionStep cfg i j st)"
      using Cons.prems collisionStep_untargeted [of i j cfg st] collisionStep_types [of st cfg i j]
      by (simp add: pass_inv_def)
    then show ?case using Cons by simp
  qed
  then show ?thesis by simp
qed

lemma nearCollisionPass_inv: "pass_inv es (nearCollisionPass cfg es)"
  unfolding nearCollisionPass_def
  by (rule fold_invariant) (simp_all add: pass_inv_def [of es "([], es)"] pass_inv_inner)

lemma recordOccupancy_untargeted: "recordOccupancy (untargeted e) = recordOccupancy e"
  by (rule ext) (simp add: recordOccupancy_def untargeted_def Let_def cong: option.case_cong)

lemma laneOccupancy_untargeted: "laneOccupancy (map untargeted es) = laneOccupancy es"
  by (simp add: laneOccupancy_def fold_map comp_def recordOccupancy_untargeted)

lemma laneOccupancy_after_pass:
  "laneOccupancy (snd (nearCollisionPass cfg es)) = laneOccupancy es"
  using nearCollisionPass_inv [of es cfg] laneOccupancy_untargeted
  by (metis pass_inv_def)

text \<open>
  Claim C5.  For a positive threshold and a lane id that is not the empty string (which
  \<open>if (entity.currentLaneId)\<close> treats as no lane): the congestion events for the lane, among
  the events of one \<open>checkProximityEvents\<close>, are exactly one event listing all occupants of
  the lane, in entity order, when the number of occupants meets or exceeds the threshold,
  and none otherwise.
\<close>

theorem congestion_events:
  assumes "0 < congestionThreshold cfg" and "lane \<noteq> []"
  shows "filter (\<lambda>ev. ev_type ev = congestion \<and> ev_zoneId ev = lane)
           (fst (checkProximityEvents cfg es)) =
     (if congestionThreshold cfg \<le> real (length (occupants es lane))
      then [\<lparr>ev_type = congestion, assetIds = occupants es lane, ev_zoneId = lane,
             payload = CongestionPayload (length (occupants es lane)) (congestionThreshold cfg)\<rparr>]
      else [])"
proof -
  define occ where "occ = laneOccupancy es"
  define thr where "thr = (\<lambda>entry :: string \<times> string list.
      congestionThreshold cfg \<le> real (length (snd entry)))"
  have nc: "filter (\<lambda>ev. ev_type ev = congestion \<and> ev_zoneId ev = lane)
              (fst (nearCollisionPass cfg es)) = []"
    using nearCollisionPass_inv [of es cfg] by (auto simp: pass_inv_def filter_empty_conv)
  have "filter (\<lambda>ev. ev_type ev = congestion \<and> ev_zoneId ev = lane) (congestionEvents cfg occ) =
        map (congestionEvent cfg) (filter (\<lambda>entry. fst entry = lane \<and> thr entry) occ)"
    by (simp add: congestionEvents_def filter_map comp_def congestionEvent_def thr_def conj_commute)
  also have "filter (\<lambda>entry. fst entry = lane \<and> thr entry) occ =
      (case map_of occ lane of None \<Rightarrow> [] | Some v \<Rightarrow> if thr (lane, v) then [(lane, v)] else [])"
    unfolding occ_def by (rule filter_key_distinct [OF laneOccupancy_distinct])
  finally have ce: "filter (\<lambda>ev. ev_type ev = congestion \<and> ev_zoneId ev = lane)
        (congestionEvents cfg occ) =
      map (congestionEvent cfg)
        (case map_of occ lane of None \<Rightarrow> [] | Some v \<Rightarrow> if thr (lane, v) then [(lane, v)] else [])" .
  have mo: "map_of occ lane = (if occupants es lane \<noteq> [] then Some (occupants es lane) else None)"
    using assms(2) by (simp add: occ_def laneOccupancy_map_of)
  have "filter (\<lambda>ev. ev_type ev = congestion \<and> ev_zoneId ev = lane)
           (fst (checkProximityEvents cfg es)) =
        filter (\<lambda>ev. ev_type ev = congestion \<and> ev_zoneId ev = lane) (congestionEvents cfg occ)"
    by (simp add: checkProximityEvents_def Let_def nc laneOccupancy_after_pass occ_def)
  then show ?thesis
    using assms(1) by (simp add: ce mo thr_def congestionEvent_def)
qed

theorem congestion_events_witness:
  "0 < congestionThreshold serverConfig \<and> ''L1'' \<noteq> [] \<and> ''L2'' \<noteq> [] \<and>
   occupants crowd ''L1'' = [''worker-1'', ''worker-3'', ''worker-4''] \<and>
   filter (\<lambda>ev. ev_type ev = congestion \<and> ev_zoneId ev = ''L1'')
     (fst (checkProximityEvents serverConfig crowd)) =
     [\<lparr>ev_type = congestion, assetIds = [''worker-1'', ''worker-3'', ''worker-4''],
       ev_zoneId = ''L1'', payload = CongestionPayload 3 3\<rparr>] \<and>
   filter (\<lambda>ev. ev_type ev = congestion \<and> ev_zoneId ev = ''L2'')
     (fst (checkProximityEvents serverConfig crowd)) = []"
proof -
  have h: "0 < congestionThreshold serverConfig" by (simp add: serverConfig_def)
  have o1: "occupants crowd ''L1'' = [''worker-1'', ''worker-3'', ''worker-4'']"
    by (simp add: occupants_def crowd_def entityAt_def)
  have o2: "occupants crowd ''L2'' = [''worker-2'']"
    by (simp add: occupants_def crowd_def entityAt_def)
  have t: "congestionThreshold serverConfig = 3" by (simp add: serverConfig_def)
  show ?thesis
    using congestion_events [OF h, of "''L1''" crowd] congestion_events [OF h, of "''L2''" crowd]
    by (simp add: o1 o2 t)
qed

section \<open>Near-collision events\<close>

lemma fold_nested:
  "fold (\<lambda>i st. fold (f i) (g i) st) is s =
   fold (\<lambda>p. f (fst p) (snd p)) (concat (map (\<lambda>i. map (Pair i) (g i)) is)) s"
  by (induction "is" arbitrary: s) (simp_all add: fold_map comp_def)

lemma nearCollisionPass_pairs:
  "nearCollisionPass cfg es =
     fold (\<lambda>p. collisionStep cfg (fst p) (snd p)) (index_pairs (length es)) ([], es)"
  unfolding nearCollisionPass_def index_pairs_def by (rule fold_nested)

lemma in_Pair_image: "(a, b) \<in> Pair c ` S \<longleftrightarrow> a = c \<and> b \<in> S"
  by auto

lemma set_index_pairs: "set (index_pairs n) = {(a, b). a < b \<and> b < n}"
proof (rule set_eqI)
  fix p :: "nat \<times> nat"
  obtain a b where p: "p = (a, b)" by (cases p)
  have "(a, b) \<in> set (index_pairs n) \<longleftrightarrow> a < n \<and> Suc a \<le> b \<and> b < n"
    by (auto simp: index_pairs_def in_Pair_image)
  then show "p \<in> set (index_pairs n) \<longleftrightarrow> p \<in> {(a, b). a < b \<and> b < n}"
    using p by auto
qed

lemma distinct_rows:
  "distinct is \<Longrightarrow> (\<And>i. distinct (g i)) \<Longrightarrow>
   distinct (concat (map (\<lambda>i. map (Pair i) (g i)) is))"
proof (induction "is")
  case Nil
  then show ?case by simp
next
  case (Cons i "is")
  have "distinct (map (Pair i) (g i))"
    using Cons.prems(2) by (simp add: distinct_map inj_on_def)
  moreover have "set (map (Pair i) (g i)) \<inter> set (concat (map (\<lambda>i. map (Pair i) (g i)) is)) = {}"
    using Cons.prems(1) by auto
  ultimately show ?case using Cons by simp
qed

lemma distinct_index_pairs: "distinct (index_pairs n)"
  unfolding index_pairs_def by (rule distinct_rows) simp_all

lemma untargeted_nth:
  "map untargeted xs = map untargeted es \<Longrightarrow> k < length es \<Longrightarrow>
   untargeted (xs ! k) = untargeted (es ! k)"
  by (metis length_map nth_map)

lemma nearCollisionTest_untargeted:
  "untargeted a = untargeted a' \<Longrightarrow> untargeted b = untargeted b' \<Longrightarrow>
   nearCollisionTest cfg a b = nearCollisionTest cfg a' b'"
proof -
  assume a: "untargeted a = untargeted a'" and b: "untargeted b = untargeted b'"
  have "ex a = ex (untargeted a)" "ey a = ey (untargeted a)" "speed a = speed (untargeted a)"
       "ex b = ex (untargeted b)" "ey b = ey (untargeted b)" "speed b = speed (untargeted b)"
    by (simp_all add: untargeted_def)
  moreover have "ex a' = ex (untargeted a')" "ey a' = ey (untargeted a')"
       "speed a' = speed (untargeted a')"
       "ex b' = ex (untargeted b')" "ey b' = ey (untargeted b')" "speed b' = speed (untargeted b')"
    by (simp_all add: untargeted_def)
  ultimately show ?thesis using a b by (simp add: nearCollisionTest_def)
qed

lemma nearCollisionEvent_untargeted:
  "untargeted a = untargeted a' \<Longrightarrow> untargeted b = untargeted b' \<Longrightarrow>
   nearCollisionEvent a b = nearCollisionEvent a' b'"
proof -
  assume a: "untargeted a = untargeted a'" and b: "untargeted b = untargeted b'"
  have "ex a = ex (untargeted a)" "ey a = ey (untargeted a)" "speed a = speed (untargeted a)"
       "ent_id a = ent_id (untargeted a)" "zoneId a = zoneId (untargeted a)"
       "ex b = ex (untargeted b)" "ey b = ey (untargeted b)" "speed b = speed (untargeted b)"
       "ent_id b = ent_id (untargeted b)" "zoneId b = zoneId (untargeted b)"
    by (simp_all add: untargeted_def)
  moreover have "ex a' = ex (untargeted a')" "ey a' = ey (untargeted a')"
       "speed a' = speed (untargeted a')"
       "ent_id a' = ent_id (untargeted a')" "zoneId a' = zoneId (untargeted a')"
       "ex b' = ex (untargeted b')" "ey b' = ey (untargeted b')" "speed b' = speed (untargeted b')"
       "ent_id b' = ent_id (untargeted b')" "zoneId b' = zoneId (untargeted b')"
    by (simp_all add: untargeted_def)
  ultimately show ?thesis using a b by (simp add: nearCollisionEvent_def)
qed

lemma collisionStep_result:
  assumes u: "map untargeted xs = map untargeted es"
    and i: "i < length es" and j: "j < length es" and ij: "i \<noteq> j"
  shows "fst (collisionStep cfg i j (evs, xs)) =
           evs @ (if testAt cfg es (i, j) then [eventAt es (i, j)] else [])"
    and "map untargeted (snd (collisionStep cfg i j (evs, xs))) = map untargeted es"
    and "k < length es \<Longrightarrow>
         targetSpeed (snd (collisionStep cfg i j (evs, xs)) ! k) =
           targetSpeed (xs ! k) * (if testAt cfg es (i, j) \<and> (i = k \<or> j = k) then 1 / 2 else 1)"
proof -
  have len: "length xs = length es" using u by (metis length_map)
  have ui: "untargeted (xs ! i) = untargeted (es ! i)" by (rule untargeted_nth [OF u i])
  have uj: "untargeted (xs ! j) = untargeted (es ! j)" by (rule untargeted_nth [OF u j])
  have t: "nearCollisionTest cfg (xs ! i) (xs ! j) = testAt cfg es (i, j)"
    using nearCollisionTest_untargeted [OF ui uj] by (simp add: testAt_def)
  have e: "nearCollisionEvent (xs ! i) (xs ! j) = eventAt es (i, j)"
    using nearCollisionEvent_untargeted [OF ui uj] by (simp add: eventAt_def)
  show "fst (collisionStep cfg i j (evs, xs)) =
           evs @ (if testAt cfg es (i, j) then [eventAt es (i, j)] else [])"
    by (simp add: collisionStep_def Let_def t e)
  show "map untargeted (snd (collisionStep cfg i j (evs, xs))) = map untargeted es"
    using collisionStep_untargeted [OF ij, of cfg "(evs, xs)"] u by simp
  show "targetSpeed (snd (collisionStep cfg i j (evs, xs)) ! k) =
           targetSpeed (xs ! k) * (if testAt cfg es (i, j) \<and> (i = k \<or> j = k) then 1 / 2 else 1)"
    if "k < length es"
    using that i j ij len by (auto simp: collisionStep_def Let_def t nth_list_update)
qed

lemma collision_fold:
  assumes "\<forall>p\<in>set ps. fst p < length es \<and> snd p < length es \<and> fst p \<noteq> snd p"
    and "map untargeted xs = map untargeted es"
  shows "fst (fold (\<lambda>p. collisionStep cfg (fst p) (snd p)) ps (evs, xs)) =
           evs @ map (eventAt es) (filter (testAt cfg es) ps) \<and>
         map untargeted (snd (fold (\<lambda>p. collisionStep cfg (fst p) (snd p)) ps (evs, xs)))
           = map untargeted es \<and>
         (\<forall>k<length es.
            targetSpeed (snd (fold (\<lambda>p. collisionStep cfg (fst p) (snd p)) ps (evs, xs)) ! k) =
              targetSpeed (xs ! k) *
                (1 / 2) ^ length (filter (\<lambda>p. testAt cfg es p \<and> (fst p = k \<or> snd p = k)) ps))"
  using assms
proof (induction ps arbitrary: evs xs)
  case Nil
  then show ?case by simp
next
  case (Cons p ps)
  obtain i j where p: "p = (i, j)" by (cases p)
  have ij: "i < length es" "j < length es" "i \<noteq> j"
    using Cons.prems(1) p by simp_all
  define st where "st = collisionStep cfg i j (evs, xs)"
  have st: "st = (fst st, snd st)" by simp
  note r = collisionStep_result [where cfg = cfg and evs = evs, OF Cons.prems(2) ij]
  have rest: "\<forall>p\<in>set ps. fst p < length es \<and> snd p < length es \<and> fst p \<noteq> snd p"
    using Cons.prems(1) by simp
  have u: "map untargeted (snd st) = map untargeted es"
    using r(2) by (simp add: st_def)
  note ih = Cons.IH [where evs = "fst st", OF rest u]
  have f: "fold (\<lambda>p. collisionStep cfg (fst p) (snd p)) (p # ps) (evs, xs) =
           fold (\<lambda>p. collisionStep cfg (fst p) (snd p)) ps (fst st, snd st)"
    by (simp add: p st_def)
  have a: "fst (fold (\<lambda>p. collisionStep cfg (fst p) (snd p)) (p # ps) (evs, xs)) =
           evs @ map (eventAt es) (filter (testAt cfg es) (p # ps))"
    unfolding f using ih r(1) by (simp add: st_def p)
  have b: "map untargeted (snd (fold (\<lambda>p. collisionStep cfg (fst p) (snd p)) (p # ps) (evs, xs)))
           = map untargeted es"
    unfolding f using ih by simp
  have c: "targetSpeed (snd (fold (\<lambda>p. collisionStep cfg (fst p) (snd p)) (p # ps) (evs, xs)) ! k) =
              targetSpeed (xs ! k) *
                (1 / 2) ^ length (filter (\<lambda>p. testAt cfg es p \<and> (fst p = k \<or> snd p = k)) (p # ps))"
    if k: "k < length es" for k
  proof -
    have "targetSpeed (snd (fold (\<lambda>p. collisionStep cfg (fst p) (snd p)) ps (fst st, snd st)) ! k) =
          targetSpeed (snd st ! k) *
            (1 / 2) ^ length (filter (\<lambda>p. testAt cfg es p \<and> (fst p = k \<or> snd p = k)) ps)"
      using ih k by blast
    moreover have "targetSpeed (snd st ! k) =
        targetSpeed (xs ! k) * (if testAt cfg es (i, j) \<and> (i = k \<or> j = k) then 1 / 2 else 1)"
      using r(3) [OF k] by (simp add: st_def)
    ultimately show ?thesis unfolding f by (auto simp: p)
  qed
  show ?case using a b c by blast
qed

lemma untargeted_eq:
  assumes "untargeted a = untargeted b"
  shows "a = b\<lparr>targetSpeed := targetSpeed a\<rparr>"
proof -
  have "a = (untargeted a)\<lparr>targetSpeed := targetSpeed a\<rparr>" by (simp add: untargeted_def)
  also have "\<dots> = (untargeted b)\<lparr>targetSpeed := targetSpeed a\<rparr>" using assms by simp
  also have "\<dots> = b\<lparr>targetSpeed := targetSpeed a\<rparr>" by (simp add: untargeted_def)
  finally show ?thesis .
qed

lemma length_filter_eq_distinct:
  "distinct xs \<Longrightarrow> a \<in> set xs \<Longrightarrow> length (filter (\<lambda>p. p = a) xs) = 1"
proof (induction xs)
  case Nil
  then show ?case by simp
next
  case (Cons x xs)
  show ?case
  proof (cases "x = a")
    case True
    then have "a \<notin> set xs" using Cons.prems(1) by simp
    then have "filter (\<lambda>p. p = a) xs = []" by (auto simp: filter_empty_conv)
    then show ?thesis using True by simp
  next
    case False
    then show ?thesis using Cons by simp
  qed
qed

lemma congestionEvents_type: "\<forall>ev\<in>set (congestionEvents cfg occ). ev_type ev = congestion"
  by (auto simp: congestionEvents_def congestionEvent_def)

lemma nearCollisionPass_result:
  "fst (nearCollisionPass cfg es) =
     map (eventAt es) (filter (testAt cfg es) (index_pairs (length es))) \<and>
   map untargeted (snd (nearCollisionPass cfg es)) = map untargeted es \<and>
   (\<forall>k<length es.
      targetSpeed (snd (nearCollisionPass cfg es) ! k) =
        targetSpeed (es ! k) *
          (1 / 2) ^ length (filter (\<lambda>p. testAt cfg es p \<and> (fst p = k \<or> snd p = k))
                              (index_pairs (length es))))"
proof -
  have "\<forall>p\<in>set (index_pairs (length es)).
          fst p < length es \<and> snd p < length es \<and> fst p \<noteq> snd p"
    by (auto simp: set_index_pairs)
  then show ?thesis
    using collision_fold [where ps = "index_pairs (length es)" and es = es and xs = es
        and cfg = cfg and evs = "[]"]
    by (simp add: nearCollisionPass_pairs)
qed

text \<open>
  Claim C4.  The entities of the map have distinct ids.  For every pair of positions
  \<open>i < j\<close>, the events of one \<open>checkProximityEvents\<close> contain exactly one near-collision event
  that references the two ids if the two entities are closer than the collision radius and
  one of them is faster than 0.1, and none otherwise.  Every entity keeps all its fields
  but the target speed, which is multiplied by 1/2 once for each such pair the entity
  belongs to; an entity in no such pair is unchanged.
\<close>

theorem near_collision_events:
  assumes d: "distinct (map ent_id es)" and ij: "i < j" "j < length es"
  shows "(let res = checkProximityEvents cfg es;
              near = (\<lambda>a b. nearCollisionTest cfg (es ! a) (es ! b))
          in length (filter (\<lambda>ev. ev_type ev = nearCollision \<and>
                               set (assetIds ev) = {ent_id (es ! i), ent_id (es ! j)}) (fst res))
               = (if near i j then 1 else 0) \<and>
             length (snd res) = length es \<and>
             (\<forall>k<length es.
                snd res ! k =
                  (es ! k)\<lparr>targetSpeed := targetSpeed (es ! k) *
                     (1 / 2) ^ card {(a, b). a < b \<and> b < length es \<and> (a = k \<or> b = k) \<and> near a b}\<rparr>))"
proof -
  define n where "n = length es"
  define ps where "ps = index_pairs n"
  define res where "res = checkProximityEvents cfg es"
  define P where "P = (\<lambda>ev :: DTEvent. ev_type ev = nearCollision \<and>
                               set (assetIds ev) = {ent_id (es ! i), ent_id (es ! j)})"
  note r = nearCollisionPass_result [of cfg es, folded n_def ps_def]
  have dps: "distinct ps" by (simp add: ps_def distinct_index_pairs)
  have sps: "set ps = {(a, b). a < b \<and> b < n}" by (simp add: ps_def set_index_pairs)
  have idx: "ent_id (es ! a) = ent_id (es ! b) \<longleftrightarrow> a = b" if "a < n" "b < n" for a b
    using d that nth_eq_iff_index_eq [of "map ent_id es" a b] by (simp add: n_def)
  have Pp: "P (eventAt es p) \<longleftrightarrow> p = (i, j)" if "p \<in> set ps" for p
  proof -
    obtain a b where p: "p = (a, b)" by (cases p)
    have ab: "a < b" "b < n" "a < n" using that p sps by auto
    have i: "i < n" "j < n" using ij by (simp_all add: n_def)
    have "P (eventAt es p) \<longleftrightarrow>
            {ent_id (es ! a), ent_id (es ! b)} = {ent_id (es ! i), ent_id (es ! j)}"
      by (simp add: P_def eventAt_def nearCollisionEvent_def p Let_def)
    also have "\<dots> \<longleftrightarrow> (a = i \<and> b = j) \<or> (a = j \<and> b = i)"
      using idx ab i by (simp add: doubleton_eq_iff)
    also have "\<dots> \<longleftrightarrow> a = i \<and> b = j" using ab(1) ij(1) by auto
    finally show ?thesis using p by simp
  qed
  have fres: "fst res = map (eventAt es) (filter (testAt cfg es) ps) @
                        congestionEvents cfg (laneOccupancy (snd (nearCollisionPass cfg es)))"
    using r by (simp add: res_def checkProximityEvents_def Let_def)
  have "filter P (congestionEvents cfg occ) = []" for occ
    using congestionEvents_type [of cfg occ] by (auto simp: filter_empty_conv P_def)
  then have "filter P (fst res) = map (eventAt es) (filter (\<lambda>p. P (eventAt es p)) (filter (testAt cfg es) ps))"
    by (simp add: fres filter_map comp_def)
  then have "length (filter P (fst res)) =
        length (filter (\<lambda>p. testAt cfg es p \<and> P (eventAt es p)) ps)"
    by (simp add: conj_commute)
  also have "filter (\<lambda>p. testAt cfg es p \<and> P (eventAt es p)) ps =
             filter (\<lambda>p. testAt cfg es (i, j) \<and> p = (i, j)) ps"
    by (rule filter_cong) (auto simp: Pp)
  also have "length \<dots> = (if testAt cfg es (i, j) then 1 else 0)"
    using length_filter_eq_distinct [OF dps, of "(i, j)"] ij sps by (auto simp: n_def)
  finally have ev: "length (filter P (fst res)) =
      (if nearCollisionTest cfg (es ! i) (es ! j) then 1 else 0)"
    by (simp add: testAt_def)
  have sres: "snd res = snd (nearCollisionPass cfg es)"
    by (simp add: res_def checkProximityEvents_def Let_def)
  have u: "map untargeted (snd res) = map untargeted es" using r sres by simp
  then have len: "length (snd res) = length es" by (metis length_map)
  have ent: "snd res ! k =
        (es ! k)\<lparr>targetSpeed := targetSpeed (es ! k) *
           (1 / 2) ^ card {(a, b). a < b \<and> b < length es \<and> (a = k \<or> b = k) \<and>
                                nearCollisionTest cfg (es ! a) (es ! b)}\<rparr>"
    if k: "k < length es" for k
  proof -
    let ?Q = "\<lambda>p. testAt cfg es p \<and> (fst p = k \<or> snd p = k)"
    have "distinct (filter ?Q ps)" using dps by simp
    then have "length (filter ?Q ps) = card (set (filter ?Q ps))"
      by (rule distinct_card [symmetric])
    also have "set (filter ?Q ps) =
        {(a, b). a < b \<and> b < length es \<and> (a = k \<or> b = k) \<and>
                 nearCollisionTest cfg (es ! a) (es ! b)}"
      by (auto simp: sps testAt_def n_def)
    finally have c: "length (filter ?Q ps) =
        card {(a, b). a < b \<and> b < length es \<and> (a = k \<or> b = k) \<and>
                 nearCollisionTest cfg (es ! a) (es ! b)}" .
    have t: "targetSpeed (snd res ! k) = targetSpeed (es ! k) * (1 / 2) ^ length (filter ?Q ps)"
      using r k sres by (simp add: n_def)
    have "untargeted (snd res ! k) = untargeted (es ! k)"
      by (rule untargeted_nth [OF u k])
    then have "snd res ! k = (es ! k)\<lparr>targetSpeed := targetSpeed (snd res ! k)\<rparr>"
      by (rule untargeted_eq)
    then show ?thesis using t c by simp
  qed
  show ?thesis
    unfolding Let_def res_def [symmetric] using ev len ent by (simp add: P_def)
qed

lemma closePair_pass:
  "checkProximityEvents serverConfig closePair =
     ([nearCollisionEvent (closePair ! 0) (closePair ! 1)],
      [(closePair ! 0)\<lparr>targetSpeed := 1 / 2\<rparr>, (closePair ! 1)\<lparr>targetSpeed := 1 / 2\<rparr>])"
  by (simp add: checkProximityEvents_def nearCollisionPass_def collisionStep_def
      nearCollisionTest_def closePair_def entityAt_def serverConfig_def Let_def sqrt_cmp
      laneOccupancy_def recordOccupancy_def truthy_def congestionEvents_def upt_rec)

theorem near_collision_events_witness:
  "distinct (map ent_id closePair) \<and> (0 :: nat) < 1 \<and> 1 < length closePair \<and>
   nearCollisionTest serverConfig (closePair ! 0) (closePair ! 1) \<and>
   length (filter (\<lambda>ev. ev_type ev = nearCollision \<and>
              set (assetIds ev) = {ent_id (closePair ! 0), ent_id (closePair ! 1)})
            (fst (checkProximityEvents serverConfig closePair))) = 1 \<and>
   map targetSpeed closePair = [1, 1] \<and>
   map targetSpeed (snd (checkProximityEvents serverConfig closePair)) = [1 / 2, 1 / 2]"
proof -
  have d: "distinct (map ent_id closePair)"
    by (simp add: closePair_def entityAt_def)
  have l: "(0 :: nat) < 1" "1 < length closePair"
    by (simp_all add: closePair_def)
  have t: "nearCollisionTest serverConfig (closePair ! 0) (closePair ! 1)"
    by (simp add: nearCollisionTest_def closePair_def entityAt_def serverConfig_def sqrt_cmp)
  have c: "length (filter (\<lambda>ev. ev_type ev = nearCollision \<and>
              set (assetIds ev) = {ent_id (closePair ! 0), ent_id (closePair ! 1)})
            (fst (checkProximityEvents serverConfig closePair))) = 1"
    using near_collision_events [OF d l, of serverConfig] t by (simp add: Let_def)
  have s: "map targetSpeed closePair = [1, 1] \<and>
      map targetSpeed (snd (checkProximityEvents serverConfig closePair)) = [1 / 2, 1 / 2]"
    unfolding closePair_pass by (simp add: closePair_def entityAt_def)
  show ?thesis using d l t c s by blast
qed

end
